theory Spec2Isabelle
  imports Complex_Main
begin

section \<open>Protein sequence feature utilities\<close>

text \<open>
  A shallow embedding of \<^verbatim>\<open>deepchem/utils/protein_sequence_feature_utils.py\<close>.

  Conventions of the embedding.
  \<^item> A Python \<^verbatim>\<open>str\<close> is a \<^typ>\<open>string\<close> of ASCII characters (alignment files are
    ASCII); \<^verbatim>\<open>islower\<close> and \<^verbatim>\<open>isalpha\<close> are the ASCII predicates.
  \<^item> A raised exception is the \<open>Inl\<close> branch of a sum; the exception class is kept.
  \<^item> A two-dimensional array is the list of its rows. An \<open>M\<times>1\<close> column vector is the
    list of its \<open>M\<close> entries.
  \<^item> A NumPy \<^verbatim>\<open>float64\<close> is a value of type \<open>fl\<close>: an exact real, or one of the
    special values \<open>+inf\<close>, \<open>-inf\<close>, \<open>nan\<close>. Rounding, overflow and the sign of
    zero are not modelled: finite arithmetic is exact, and a division by zero gives
    \<open>nan\<close> for a zero numerator and the infinity with the numerator's sign otherwise.
  \<^item> The tables of \<^verbatim>\<open>deepchem.utils.amino_acid_utils\<close> (\<^verbatim>\<open>AminoAcid\<close>,
    \<^verbatim>\<open>AminoAcidFreq\<close>, \<^verbatim>\<open>BLOSUM62\<close>) are not part of the file: every function that
    reads one takes it as its first argument.
\<close>

subsection \<open>Exceptions\<close>

datatype error = KeyError | ValueError | IndexError | AssertionError

subsection \<open>Characters\<close>

definition islower :: "char \<Rightarrow> bool" where
  "islower s \<longleftrightarrow> 97 \<le> (of_char s :: nat) \<and> (of_char s :: nat) \<le> 122"

definition isupper :: "char \<Rightarrow> bool" where
  "isupper s \<longleftrightarrow> 65 \<le> (of_char s :: nat) \<and> (of_char s :: nat) \<le> 90"

definition isalpha :: "char \<Rightarrow> bool" where
  "isalpha s \<longleftrightarrow> isupper s \<or> islower s"

subsection \<open>The alphabet table and \<^verbatim>\<open>amino_acid_to_numeric\<close>\<close>

text \<open>
  \<^verbatim>\<open>AminoAcid\<close> is a dictionary from one-letter codes to indices, here an association
  list. \<open>s in AminoAcid\<close> is \<open>map_of tbl s \<noteq> None\<close>; \<open>AminoAcid['X']\<close> raises
  \<open>KeyError\<close> when the key is absent.
\<close>

type_synonym alphabet = "(char \<times> nat) list"

definition getitem :: "alphabet \<Rightarrow> char \<Rightarrow> error + nat" where
  "getitem tbl s = (case map_of tbl s of None \<Rightarrow> Inl KeyError | Some i \<Rightarrow> Inr i)"

definition amino_acid_to_numeric :: "alphabet \<Rightarrow> char \<Rightarrow> error + nat" where
  "amino_acid_to_numeric tbl s =
     (if map_of tbl s \<noteq> None then getitem tbl s else getitem tbl (CHR ''X''))"

text \<open>
  Modelled from the spec: the alphabet table itself is missing from the sources. The spec
  describes it as a fixed bijection between the 22 one-letter codes (the standard twenty,
  the unknown code \<open>X\<close> and the gap \<open>-\<close>) and the indices \<open>0..21\<close>.
  \<open>alphabet_ok\<close> is that description; \<open>AminoAcid_sample\<close> is one table that meets it
  (the twenty codes in alphabetical order, then \<open>X\<close>, then the gap), used to run the
  functions on concrete inputs.
\<close>

definition alphabet_ok :: "alphabet \<Rightarrow> bool" where
  "alphabet_ok tbl \<longleftrightarrow>
     length tbl = 22 \<and> distinct (map fst tbl) \<and> distinct (map snd tbl) \<and>
     list_all (\<lambda>kv. snd kv < 22) tbl \<and>
     map_of tbl (CHR ''X'') \<noteq> None \<and> map_of tbl (CHR ''-'') \<noteq> None"

definition AminoAcid_sample :: alphabet where
  "AminoAcid_sample =
     zip ''ACDEFGHIKLMNPQRSTVWYX-'' [0 ..< 22]"

subsection \<open>\<^verbatim>\<open>sequence_one_hot_encoding\<close>\<close>

text \<open>The first loop: raise \<open>ValueError\<close> at the first character that is neither the
  gap nor alphabetic.\<close>

fun check_sequence :: "string \<Rightarrow> error + unit" where
  "check_sequence [] = Inr ()"
| "check_sequence (s # ss) =
     (if \<not> s = CHR ''-'' \<and> \<not> isalpha s then Inl ValueError else check_sequence ss)"

text \<open>The second loop: row \<open>i\<close> of the zero matrix gets a 1 at the index of character
  \<open>i\<close>. An index beyond the row is NumPy's \<open>IndexError\<close>.\<close>

fun one_hot_rows :: "alphabet \<Rightarrow> nat \<Rightarrow> string \<Rightarrow> error + real list list" where
  "one_hot_rows tbl n [] = Inr []"
| "one_hot_rows tbl n (s # ss) =
     (case amino_acid_to_numeric tbl s of
        Inl e \<Rightarrow> Inl e
      | Inr k \<Rightarrow>
          if k < n then
            (case one_hot_rows tbl n ss of
               Inl e \<Rightarrow> Inl e
             | Inr rows \<Rightarrow> Inr ((replicate n 0)[k := 1] # rows))
          else Inl IndexError)"

definition sequence_one_hot_encoding :: "alphabet \<Rightarrow> string \<Rightarrow> error + real list list" where
  "sequence_one_hot_encoding tbl sequence =
     (case check_sequence sequence of
        Inl e \<Rightarrow> Inl e
      | Inr _ \<Rightarrow> one_hot_rows tbl (length tbl) sequence)"

subsection \<open>Floating-point values\<close>

text \<open>
  The values of a NumPy \<^verbatim>\<open>float64\<close> array. NumPy does not raise on a division by
  zero (it warns and stores \<open>nan\<close> or an infinity), so the special values are
  values of the model and not errors.
\<close>

datatype fl = Fin real | PInf | NInf | NaN

fun fneg :: "fl \<Rightarrow> fl" where
  "fneg (Fin a) = Fin (- a)"
| "fneg PInf = NInf"
| "fneg NInf = PInf"
| "fneg NaN = NaN"

fun fadd :: "fl \<Rightarrow> fl \<Rightarrow> fl" where
  "fadd (Fin a) (Fin b) = Fin (a + b)"
| "fadd NaN _ = NaN"
| "fadd _ NaN = NaN"
| "fadd PInf NInf = NaN"
| "fadd NInf PInf = NaN"
| "fadd PInf _ = PInf"
| "fadd _ PInf = PInf"
| "fadd NInf _ = NInf"
| "fadd _ NInf = NInf"

definition fsub :: "fl \<Rightarrow> fl \<Rightarrow> fl" where
  "fsub x y = fadd x (fneg y)"


fun fdiv :: "fl \<Rightarrow> fl \<Rightarrow> fl" where
  "fdiv (Fin a) (Fin b) =
     (if b \<noteq> 0 then Fin (a / b)
      else if a = 0 then NaN else if 0 < a then PInf else NInf)"
| "fdiv NaN _ = NaN"
| "fdiv _ NaN = NaN"
| "fdiv (Fin a) PInf = Fin 0"
| "fdiv (Fin a) NInf = Fin 0"
| "fdiv PInf (Fin b) = (if 0 \<le> b then PInf else NInf)"
| "fdiv NInf (Fin b) = (if 0 \<le> b then NInf else PInf)"
| "fdiv PInf PInf = NaN"
| "fdiv PInf NInf = NaN"
| "fdiv NInf PInf = NaN"
| "fdiv NInf NInf = NaN"

text \<open>\<^verbatim>\<open>np.log\<close> and \<^verbatim>\<open>np.exp\<close>.\<close>

fun flog :: "fl \<Rightarrow> fl" where
  "flog (Fin a) = (if 0 < a then Fin (ln a) else if a = 0 then NInf else NaN)"
| "flog PInf = PInf"
| "flog NInf = NaN"
| "flog NaN = NaN"


text \<open>The comparison \<open>x > 0\<close>; it is false on \<open>nan\<close>.\<close>

fun fgt0 :: "fl \<Rightarrow> bool" where
  "fgt0 (Fin a) = (0 < a)"
| "fgt0 PInf = True"
| "fgt0 NInf = False"
| "fgt0 NaN = False"

text \<open>\<^verbatim>\<open>ndarray.sum\<close> over a list of values. In this arithmetic the order of the
  additions does not change the result.\<close>

definition fsum :: "fl list \<Rightarrow> fl" where
  "fsum xs = foldl fadd (Fin 0) xs"

subsection \<open>Arrays\<close>

text \<open>
  \<open>shape1\<close> is \<^verbatim>\<open>a.shape[1]\<close>. A matrix with no rows stands for the one-dimensional
  empty array that \<^verbatim>\<open>np.array([])\<close> builds (what \<open>read_a3m_as_mat\<close> returns when no
  row is kept), whose shape has no second entry.
\<close>

definition shape1 :: "'a list list \<Rightarrow> error + nat" where
  "shape1 a = (case a of [] \<Rightarrow> Inl IndexError | r # _ \<Rightarrow> Inr (length r))"

text \<open>\<open>rect L a\<close>: every row of \<open>a\<close> has \<open>L\<close> entries, as in every two-dimensional array
  with \<open>L\<close> columns.\<close>

definition rect :: "nat \<Rightarrow> 'a list list \<Rightarrow> bool" where
  "rect L a \<longleftrightarrow> list_all (\<lambda>r. length r = L) a"

text \<open>\<^verbatim>\<open>a.sum(0)\<close> of a real matrix with \<open>L\<close> columns: the sums of the columns.\<close>

definition sum0 :: "nat \<Rightarrow> real list list \<Rightarrow> real list" where
  "sum0 L a = map (\<lambda>j. sum_list (map (\<lambda>row. row ! j) a)) [0 ..< L]"

text \<open>The columns \<open>cols ! i\<close> written by \<^verbatim>\<open>prof_ct[:, i] = ...\<close>, read back as the
  \<open>L\<close> rows of \<open>prof_ct\<close>.\<close>

definition from_columns :: "nat \<Rightarrow> 'a list list \<Rightarrow> 'a list list" where
  "from_columns L cols = map (\<lambda>j. map (\<lambda>c. c ! j) cols) [0 ..< L]"

text \<open>\<^verbatim>\<open>prof_ct / prof_ct.sum(1, keepdims=True)\<close>: every entry divided by the sum of its
  row. The counts are finite, so the row sum is a real; the division is NumPy's.\<close>

definition normalize_rows :: "real list list \<Rightarrow> fl list list" where
  "normalize_rows ct = map (\<lambda>row. map (\<lambda>x. fdiv (Fin x) (Fin (sum_list row))) row) ct"

subsection \<open>\<^verbatim>\<open>sequence_profile\<close> and \<^verbatim>\<open>sequence_profile_no_gap\<close>\<close>

text \<open>
  \<^verbatim>\<open>(seq_mat == i) * weights\<close>, for a weight column of \<open>K\<close> finite entries against the
  \<open>M\<close> rows of the matrix, under NumPy's broadcasting: row by row when \<open>K = M\<close>, the
  single weight on every row when \<open>K = 1\<close>, the single row against every weight when
  \<open>M = 1\<close>, and \<open>ValueError\<close> otherwise.
\<close>

definition indicator_row :: "int \<Rightarrow> int list \<Rightarrow> real \<Rightarrow> real list" where
  "indicator_row i row w = map (\<lambda>x. (if x = i then 1 else 0) * w) row"

definition eq_times_weights :: "int list list \<Rightarrow> int \<Rightarrow> real list \<Rightarrow> error + real list list" where
  "eq_times_weights seq_mat i weights =
     (if length weights = length seq_mat then
        Inr (map (\<lambda>(row, w). indicator_row i row w) (zip seq_mat weights))
      else if length weights = 1 then
        Inr (map (\<lambda>row. indicator_row i row (hd weights)) seq_mat)
      else if length seq_mat = 1 then
        Inr (map (\<lambda>w. indicator_row i (hd seq_mat) w) weights)
      else Inl ValueError)"

text \<open>The loop \<^verbatim>\<open>for i in range(n)\<close> that fills the columns of \<open>prof_ct\<close>, from
  \<open>i = lo\<close>.\<close>

fun profile_columns ::
  "nat \<Rightarrow> int list list \<Rightarrow> real list \<Rightarrow> nat \<Rightarrow> nat \<Rightarrow> error + real list list" where
  "profile_columns L seq_mat weights lo 0 = Inr []"
| "profile_columns L seq_mat weights lo (Suc n) =
     (case eq_times_weights seq_mat (int lo) weights of
        Inl e \<Rightarrow> Inl e
      | Inr weighted \<Rightarrow>
          (case profile_columns L seq_mat weights (Suc lo) n of
             Inl e \<Rightarrow> Inl e
           | Inr cols \<Rightarrow> Inr (sum0 L weighted # cols)))"

definition sequence_profile :: "int list list \<Rightarrow> real list option \<Rightarrow> error + fl list list" where
  "sequence_profile seq_mat weights =
     (case shape1 seq_mat of
        Inl e \<Rightarrow> Inl e
      | Inr L \<Rightarrow>
          let weights = (case weights of None \<Rightarrow> replicate (length seq_mat) 1 | Some w \<Rightarrow> w)
          in (case profile_columns L seq_mat weights 0 22 of
                Inl e \<Rightarrow> Inl e
              | Inr cols \<Rightarrow> Inr (normalize_rows (from_columns L cols))))"

text \<open>\<^verbatim>\<open>(seq_mat == i).sum(0)\<close>: the number of rows that hold \<open>i\<close>, column by column.
  The \<open>weights\<close> argument is accepted and never read.\<close>

definition count_eq :: "nat \<Rightarrow> int list list \<Rightarrow> int \<Rightarrow> real list" where
  "count_eq L seq_mat i =
     map (\<lambda>j. real (length (filter (\<lambda>row. row ! j = i) seq_mat))) [0 ..< L]"

definition sequence_profile_no_gap ::
  "int list list \<Rightarrow> real list option \<Rightarrow> error + fl list list" where
  "sequence_profile_no_gap seq_mat weights =
     (case shape1 seq_mat of
        Inl e \<Rightarrow> Inl e
      | Inr L \<Rightarrow>
          Inr (normalize_rows (from_columns L (map (\<lambda>i. count_eq L seq_mat (int i)) [0 ..< 21]))))"

text \<open>
  The quantity the normalisation divides by, written as the specification does: the
  weight of the rows whose entry in column \<open>j\<close> is the symbol \<open>i\<close>, and the total over
  the first \<open>n\<close> symbols.
\<close>

definition symbol_weight :: "int list list \<Rightarrow> real list \<Rightarrow> nat \<Rightarrow> nat \<Rightarrow> real" where
  "symbol_weight seq_mat weights j i =
     (\<Sum>r < length seq_mat. if seq_mat ! r ! j = int i then weights ! r else 0)"

definition column_weight :: "nat \<Rightarrow> int list list \<Rightarrow> real list \<Rightarrow> nat \<Rightarrow> real" where
  "column_weight n seq_mat weights j = (\<Sum>i < n. symbol_weight seq_mat weights j i)"

subsection \<open>\<^verbatim>\<open>sequence_identity\<close> and \<^verbatim>\<open>read_a3m_as_mat\<close>\<close>

text \<open>The list comprehension \<^verbatim>\<open>[amino_acid_to_numeric(s) for s in seq]\<close>: the first
  failing element aborts it.\<close>

fun to_numeric :: "alphabet \<Rightarrow> string \<Rightarrow> error + nat list" where
  "to_numeric tbl [] = Inr []"
| "to_numeric tbl (s # ss) =
     (case amino_acid_to_numeric tbl s of
        Inl e \<Rightarrow> Inl e
      | Inr k \<Rightarrow> (case to_numeric tbl ss of Inl e \<Rightarrow> Inl e | Inr ks \<Rightarrow> Inr (k # ks)))"

text \<open>
  \<^verbatim>\<open>((s1 == s2) * (s1 != AminoAcid['-'])).sum()\<close> on two one-dimensional arrays. Arrays
  of equal length are compared position by position, an array of one element is
  broadcast against the other, and any other pair of lengths is NumPy's \<open>ValueError\<close>
  (NumPy 1.25 and later; older releases warned and counted 0 there).
\<close>

definition match_count :: "nat \<Rightarrow> nat list \<Rightarrow> nat list \<Rightarrow> nat" where
  "match_count gap s1 s2 =
     length (filter (\<lambda>(a, b). a = b \<and> a \<noteq> gap) (zip s1 s2))"

definition sequence_identity :: "alphabet \<Rightarrow> nat list \<Rightarrow> nat list \<Rightarrow> error + nat" where
  "sequence_identity tbl s1 s2 =
     (case getitem tbl (CHR ''-'') of
        Inl e \<Rightarrow> Inl e
      | Inr gap \<Rightarrow>
          if length s1 = length s2 then Inr (match_count gap s1 s2)
          else if length s2 = 1 then Inr (match_count gap s1 (replicate (length s1) (hd s2)))
          else if length s1 = 1 then Inr (match_count gap (replicate (length s2) (hd s1)) s2)
          else Inl ValueError)"

text \<open>The loop over \<^verbatim>\<open>a3m_seqs\<close>; the result is the list \<^verbatim>\<open>seq_mat\<close> of the rows
  appended. \<^verbatim>\<open>clean and ...\<close> does not evaluate the identity when \<^verbatim>\<open>clean\<close> is false.
  The threshold \<^verbatim>\<open>seq_len * 0.01\<close> is compared as a real number.\<close>

fun a3m_rows :: "alphabet \<Rightarrow> bool \<Rightarrow> nat list \<Rightarrow> string list \<Rightarrow> error + nat list list" where
  "a3m_rows tbl clean sequence_array [] = Inr []"
| "a3m_rows tbl clean sequence_array (seq # rest) =
     (case to_numeric tbl (filter (\<lambda>s. \<not> islower s) seq) of
        Inl e \<Rightarrow> Inl e
      | Inr seq_arr \<Rightarrow>
          (case (if clean then sequence_identity tbl sequence_array seq_arr else Inr 0) of
             Inl e \<Rightarrow> Inl e
           | Inr ident \<Rightarrow>
               if clean \<and> real ident < real (length sequence_array) * 0.01
               then a3m_rows tbl clean sequence_array rest
               else (case a3m_rows tbl clean sequence_array rest of
                       Inl e \<Rightarrow> Inl e
                     | Inr seq_mat \<Rightarrow> Inr (seq_arr # seq_mat))))"

text \<open>\<^verbatim>\<open>np.array(seq_mat).astype(int)\<close>: rows of unequal length do not make an
  integer matrix (\<open>ValueError\<close>).\<close>

definition as_int_matrix :: "nat list list \<Rightarrow> error + int list list" where
  "as_int_matrix seq_mat =
     (case seq_mat of
        [] \<Rightarrow> Inr []
      | r # rs \<Rightarrow>
          if list_all (\<lambda>r'. length r' = length r) rs
          then Inr (map (map int) seq_mat) else Inl ValueError)"

definition read_a3m_as_mat ::
  "alphabet \<Rightarrow> string \<Rightarrow> string list \<Rightarrow> string list \<Rightarrow> bool \<Rightarrow> error + int list list" where
  "read_a3m_as_mat tbl sequence a3m_seq_IDs a3m_seqs clean =
     (case a3m_seqs of
        [] \<Rightarrow> Inl IndexError
      | first # _ \<Rightarrow>
          if sequence \<noteq> first then Inl AssertionError
          else
            (case to_numeric tbl sequence of
               Inl e \<Rightarrow> Inl e
             | Inr sequence_array \<Rightarrow>
                 (case a3m_rows tbl clean sequence_array a3m_seqs of
                    Inl e \<Rightarrow> Inl e
                  | Inr seq_mat \<Rightarrow> as_int_matrix seq_mat)))"

subsection \<open>\<^verbatim>\<open>profile_combinatorial\<close>\<close>

text \<open>
  \<open>combined\<close> is the \<open>M\<times>N\<times>N\<close> array
  \<^verbatim>\<open>seq_mat.reshape((M, N, 1)) * 22 + seq_mat.reshape((M, 1, N))\<close>: entry \<open>(r, i, j)\<close> is
  \<open>seq_mat[r, i] * 22 + seq_mat[r, j]\<close>.
\<close>

definition combined :: "int list list \<Rightarrow> int list list list" where
  "combined seq_mat = map (\<lambda>row. map (\<lambda>x. map (\<lambda>y. x * 22 + y) row) row) seq_mat"

text \<open>\<^verbatim>\<open>((combined == code) * w).sum(0)\<close>, an \<open>N\<times>N\<close> array: \<open>w\<close> has shape \<open>(M, 1, 1)\<close>,
  so layer \<open>r\<close> of the comparison is multiplied by \<open>w[r]\<close>, and the layers are summed.\<close>

definition eq_times_w :: "int list list list \<Rightarrow> int \<Rightarrow> real list \<Rightarrow> real list list list" where
  "eq_times_w comb code w =
     map (\<lambda>(layer, wr). map (map (\<lambda>v. (if v = code then 1 else 0) * wr)) layer) (zip comb w)"

definition sum0_layers :: "nat \<Rightarrow> real list list list \<Rightarrow> real list list" where
  "sum0_layers N layers =
     map (\<lambda>i. map (\<lambda>j. sum_list (map (\<lambda>layer. layer ! i ! j) layers)) [0 ..< N]) [0 ..< N]"

text \<open>
  \<open>weights\<close> is any array of \<open>M\<close> finite entries (the reshape to \<open>(M, 1, 1)\<close> fails with
  \<open>ValueError\<close> otherwise); of \<open>w_prof\<close> only the number of columns is read. Unpacking
  the shape of a matrix without rows fails with \<open>ValueError\<close>. The two loops fill the
  slices \<open>prof_2D[:, :, i, j]\<close>; the result is indexed \<open>[column][column][type][type]\<close>.
\<close>

definition profile_combinatorial ::
  "int list list \<Rightarrow> real list \<Rightarrow> fl list list \<Rightarrow> error + fl list list list list" where
  "profile_combinatorial seq_mat weights w_prof =
     (case seq_mat of
        [] \<Rightarrow> Inl ValueError
      | row0 # _ \<Rightarrow>
          let M = length seq_mat; N = length row0 in
          (case shape1 w_prof of
             Inl e \<Rightarrow> Inl e
           | Inr n_res \<Rightarrow>
               if length weights \<noteq> M then Inl ValueError
               else
                 let w = weights;
                     comb = combined seq_mat;
                     slices = map (\<lambda>i. map (\<lambda>j.
                                sum0_layers N (eq_times_w comb (int i * 22 + int j) w))
                                [0 ..< n_res]) [0 ..< n_res]
                 in Inr (map (\<lambda>c1. map (\<lambda>c2. map (\<lambda>i. map (\<lambda>j.
                           fdiv (Fin (slices ! i ! j ! c1 ! c2)) (Fin (sum_list w)))
                           [0 ..< n_res]) [0 ..< n_res]) [0 ..< N]) [0 ..< N])))"

text \<open>The pairwise count as the specification words it: the weight of the rows that
  hold type \<open>a\<close> in column \<open>i\<close> and type \<open>b\<close> in column \<open>j\<close>.\<close>

definition pair_weight :: "int list list \<Rightarrow> real list \<Rightarrow> nat \<Rightarrow> nat \<Rightarrow> int \<Rightarrow> int \<Rightarrow> real" where
  "pair_weight seq_mat weights i j a b =
     (\<Sum>r < length seq_mat.
        if seq_mat ! r ! i = a \<and> seq_mat ! r ! j = b then weights ! r else 0)"

definition entries_in :: "int \<Rightarrow> int list list \<Rightarrow> bool" where
  "entries_in n seq_mat \<longleftrightarrow> list_all (list_all (\<lambda>x. 0 \<le> x \<and> x < n)) seq_mat"

subsection \<open>\<^verbatim>\<open>sequence_weights\<close>\<close>

text \<open>
  SciPy's \<^verbatim>\<open>pdist(X, 'hamming')\<close>: for every pair of rows \<open>i < j\<close>, in row-major order
  (the condensed distance vector), the fraction of the positions at which the two rows
  differ. The fraction is a floating-point division by the number of columns.
\<close>

definition diff_count :: "int list \<Rightarrow> int list \<Rightarrow> nat" where
  "diff_count u v = length (filter (\<lambda>(a, b). a \<noteq> b) (zip u v))"

definition hamming :: "int list \<Rightarrow> int list \<Rightarrow> fl" where
  "hamming u v = fdiv (Fin (real (diff_count u v))) (Fin (real (length u)))"

fun pdist :: "int list list \<Rightarrow> fl list" where
  "pdist [] = []"
| "pdist (x # xs) = map (hamming x) xs @ pdist xs"

text \<open>The comparison \<open>x < c\<close> with a finite constant; it is false on \<open>nan\<close>.\<close>

fun flt :: "fl \<Rightarrow> real \<Rightarrow> bool" where
  "flt (Fin a) c = (a < c)"
| "flt NInf c = True"
| "flt PInf c = False"
| "flt NaN c = False"

text \<open>
  SciPy's \<^verbatim>\<open>squareform\<close> on a condensed vector \<open>v\<close>: the symmetric \<open>d\<times>d\<close> matrix with
  a zero (here \<open>False\<close>) diagonal whose entry \<open>(i, j)\<close>, \<open>i < j\<close>, is
  \<open>v[d*i - i*(i+1)/2 + (j - i - 1)]\<close>, where \<open>d * (d - 1) = 2 * len(v)\<close>; the empty
  vector gives the \<open>1\<times>1\<close> matrix, and a length that is no such number is rejected.
\<close>

definition square_dim :: "nat \<Rightarrow> nat option" where
  "square_dim n = find (\<lambda>d. d * (d - 1) = 2 * n) [1 ..< n + 2]"

definition condensed_index :: "nat \<Rightarrow> nat \<Rightarrow> nat \<Rightarrow> nat" where
  "condensed_index d i j = d * i - i * (i + 1) div 2 + (j - i - 1)"

definition squareform :: "bool list \<Rightarrow> error + bool list list" where
  "squareform v =
     (case square_dim (length v) of
        None \<Rightarrow> Inl ValueError
      | Some d \<Rightarrow>
          Inr (map (\<lambda>i. map (\<lambda>j.
                 if i = j then False
                 else v ! condensed_index d (min i j) (max i j)) [0 ..< d]) [0 ..< d]))"

text \<open>
  \<^verbatim>\<open>np.sum(dist_mat, 0)\<close> counts the \<open>True\<close> entries of each column. The weights
  \<open>1 + count\<close> are positive integers, so \<open>1.0 / weights\<close> is finite; the result is the
  \<open>n_align\<times>1\<close> column, as the list of its entries. Unpacking the shape of a matrix
  without rows fails, and so does the reshape when the sizes differ.
\<close>

definition sequence_weights :: "int list list \<Rightarrow> error + real list" where
  "sequence_weights seq_mat =
     (case seq_mat of
        [] \<Rightarrow> Inl ValueError
      | row0 # _ \<Rightarrow>
          let n_align = length seq_mat;
              dist_mat = pdist seq_mat
          in (case squareform (map (\<lambda>d. flt d 0.38) dist_mat) of
                Inl e \<Rightarrow> Inl e
              | Inr dist_mat \<Rightarrow>
                  let weights = map (\<lambda>j. 1 + length (filter (\<lambda>row. row ! j) dist_mat))
                                    [0 ..< length dist_mat]
                  in if length weights = n_align
                     then Inr (map (\<lambda>w. 1 / real w) weights)
                     else Inl ValueError))"

subsection \<open>\<^verbatim>\<open>sequence_profile_with_prior\<close>\<close>





text \<open>\<^verbatim>\<open>NC = np.where(f_i > 0)[0].shape[0]\<close> and \<^verbatim>\<open>alpha = NC - 1\<close>.\<close>

definition NC :: "fl list \<Rightarrow> nat" where
  "NC f_i = length (filter fgt0 f_i)"











section \<open>Properties\<close>

subsection \<open>The alphabet\<close>

lemma getitem_Some: "map_of tbl s = Some i \<Longrightarrow> getitem tbl s = Inr i"
  by (simp add: getitem_def)

lemma alphabet_ok_lookup_less:
  assumes "alphabet_ok tbl" and "map_of tbl s = Some i"
  shows "i < 22"
proof -
  from assms(2) have "(s, i) \<in> set tbl" by (rule map_of_SomeD)
  moreover from assms(1) have "\<forall>kv\<in>set tbl. snd kv < 22"
    by (simp add: alphabet_ok_def list_all_iff)
  ultimately show ?thesis by fastforce
qed

lemma amino_acid_to_numeric_total:
  assumes "alphabet_ok tbl"
  shows "\<exists>k. amino_acid_to_numeric tbl s = Inr k \<and> k < 22"
proof (cases "map_of tbl s")
  case (Some i)
  with assms show ?thesis
    by (auto simp: amino_acid_to_numeric_def getitem_def dest: alphabet_ok_lookup_less)
next
  case None
  from assms obtain x where x: "map_of tbl (CHR ''X'') = Some x"
    by (auto simp: alphabet_ok_def)
  with assms have "x < 22" by (auto dest: alphabet_ok_lookup_less)
  with None x show ?thesis
    by (simp add: amino_acid_to_numeric_def getitem_def)
qed

lemma alphabet_ok_sample: "alphabet_ok AminoAcid_sample"
  by (simp add: alphabet_ok_def AminoAcid_sample_def upt_rec)

subsection \<open>One-hot encoding\<close>

lemma check_sequence_Inr:
  "check_sequence s = Inr () \<longleftrightarrow> (\<forall>c\<in>set s. c = CHR ''-'' \<or> isalpha c)"
  by (induction s) auto

lemma check_sequence_Inl:
  "check_sequence s = Inl e \<Longrightarrow> e = ValueError"
  by (induction s) (auto split: if_splits)

lemma check_sequence_bad:
  assumes "\<exists>c\<in>set s. c \<noteq> CHR ''-'' \<and> \<not> isalpha c"
  shows "check_sequence s = Inl ValueError"
proof (cases "check_sequence s")
  case (Inl e)
  then show ?thesis by (simp add: check_sequence_Inl)
next
  case (Inr u)
  then have "check_sequence s = Inr ()" by simp
  with assms show ?thesis by (auto simp: check_sequence_Inr)
qed

lemma one_hot_rows_spec:
  assumes "alphabet_ok tbl"
  shows "\<exists>rows. one_hot_rows tbl 22 s = Inr rows \<and> length rows = length s \<and>
           (\<forall>i<length s. \<exists>k<22. amino_acid_to_numeric tbl (s ! i) = Inr k \<and>
                            rows ! i = (replicate 22 0)[k := 1])"
proof (induction s)
  case Nil
  show ?case by simp
next
  case (Cons c cs)
  then obtain rows where rows: "one_hot_rows tbl 22 cs = Inr rows" "length rows = length cs"
    and nth: "\<forall>i<length cs. \<exists>k<22. amino_acid_to_numeric tbl (cs ! i) = Inr k \<and>
                            rows ! i = (replicate 22 0)[k := 1]"
    by blast
  from assms obtain k where k: "amino_acid_to_numeric tbl c = Inr k" "k < 22"
    using amino_acid_to_numeric_total by blast
  have eq: "one_hot_rows tbl 22 (c # cs) = Inr ((replicate 22 0)[k := 1] # rows)"
    using k rows by simp
  have "\<exists>k'<22. amino_acid_to_numeric tbl ((c # cs) ! i) = Inr k' \<and>
          ((replicate 22 0)[k := 1] # rows) ! i = (replicate 22 0)[k' := 1]"
    if "i < length (c # cs)" for i
  proof (cases i)
    case 0
    with k show ?thesis by auto
  next
    case (Suc j)
    with that have "j < length cs" by simp
    with nth Suc show ?thesis by simp
  qed
  with eq rows(2) show ?case by simp
qed

text \<open>
  Claim C7. \<open>sequence_one_hot_encoding\<close> raises exactly when the input holds a character
  that is neither alphabetic nor the gap \<open>-\<close>; the exception is then \<open>ValueError\<close>. On
  every other input it returns a matrix with one row per character. (The alphabet table
  is any table that meets the spec's description.)
\<close>

theorem one_hot_raises_iff:
  assumes "alphabet_ok tbl"
  shows "((\<exists>e. sequence_one_hot_encoding tbl s = Inl e) \<longleftrightarrow>
            (\<exists>c\<in>set s. c \<noteq> CHR ''-'' \<and> \<not> isalpha c)) \<and>
         ((\<exists>c\<in>set s. c \<noteq> CHR ''-'' \<and> \<not> isalpha c) \<longrightarrow>
            sequence_one_hot_encoding tbl s = Inl ValueError) \<and>
         (\<not> (\<exists>c\<in>set s. c \<noteq> CHR ''-'' \<and> \<not> isalpha c) \<longrightarrow>
            (\<exists>m. sequence_one_hot_encoding tbl s = Inr m \<and> length m = length s))"
proof (cases "\<exists>c\<in>set s. c \<noteq> CHR ''-'' \<and> \<not> isalpha c")
  case True
  then have "check_sequence s = Inl ValueError" by (rule check_sequence_bad)
  then have "sequence_one_hot_encoding tbl s = Inl ValueError"
    by (simp add: sequence_one_hot_encoding_def)
  with True show ?thesis by simp
next
  case False
  then have chk: "check_sequence s = Inr ()" by (auto simp: check_sequence_Inr)
  from assms have len: "length tbl = 22" by (simp add: alphabet_ok_def)
  from one_hot_rows_spec [OF assms, of s] obtain rows
    where "one_hot_rows tbl 22 s = Inr rows" "length rows = length s" by blast
  with chk len have "sequence_one_hot_encoding tbl s = Inr rows \<and> length rows = length s"
    by (simp add: sequence_one_hot_encoding_def)
  with False show ?thesis by auto
qed

theorem one_hot_raises_iff_witness:
  "alphabet_ok AminoAcid_sample \<and>
   sequence_one_hot_encoding AminoAcid_sample ''AC1D'' = Inl ValueError \<and>
   (\<exists>m. sequence_one_hot_encoding AminoAcid_sample ''Ab-'' = Inr m \<and>
        length m = length ''Ab-'')"
  using one_hot_raises_iff [OF alphabet_ok_sample, of "''AC1D''"]
        one_hot_raises_iff [OF alphabet_ok_sample, of "''Ab-''"]
        alphabet_ok_sample
  by (simp add: isalpha_def isupper_def islower_def)

text \<open>
  Claim C8. On every accepted sequence the result has one row per character; row \<open>i\<close> has
  22 entries, the entry at the index that \<open>amino_acid_to_numeric\<close> returns for character
  \<open>i\<close> is 1 and every other entry is 0.
\<close>

theorem one_hot_single_one:
  assumes "alphabet_ok tbl" and "sequence_one_hot_encoding tbl s = Inr m"
  shows "length m = length s \<and>
         (\<forall>i<length s. \<exists>k<22. amino_acid_to_numeric tbl (s ! i) = Inr k \<and>
              length (m ! i) = 22 \<and>
              (\<forall>j<22. m ! i ! j = (if j = k then 1 else 0)))"
proof -
  from assms(1) have len: "length tbl = 22" by (simp add: alphabet_ok_def)
  from assms(2) len have m: "one_hot_rows tbl 22 s = Inr m"
    by (auto simp: sequence_one_hot_encoding_def split: sum.splits)
  from one_hot_rows_spec [OF assms(1), of s] m
  have lm: "length m = length s"
    and nth: "\<forall>i<length s. \<exists>k<22. amino_acid_to_numeric tbl (s ! i) = Inr k \<and>
                 m ! i = (replicate 22 0)[k := 1]"
    by auto
  have "\<exists>k<22. amino_acid_to_numeric tbl (s ! i) = Inr k \<and> length (m ! i) = 22 \<and>
          (\<forall>j<22. m ! i ! j = (if j = k then 1 else 0))" if "i < length s" for i
  proof -
    from nth that obtain k where k: "k < 22" "amino_acid_to_numeric tbl (s ! i) = Inr k"
      "m ! i = (replicate 22 0)[k := 1]" by blast
    have "\<forall>j<22. ((replicate 22 (0::real))[k := 1]) ! j = (if j = k then 1 else 0)"
      by (simp add: nth_list_update)
    with k show ?thesis by auto
  qed
  with lm show ?thesis by blast
qed

theorem one_hot_single_one_witness:
  "alphabet_ok AminoAcid_sample \<and>
   sequence_one_hot_encoding AminoAcid_sample ''C-'' =
     Inr [(replicate 22 0)[1 := 1], (replicate 22 0)[21 := 1]] \<and>
   (\<exists>k<22. amino_acid_to_numeric AminoAcid_sample (''C-'' ! 1) = Inr k \<and>
        length ([(replicate 22 0)[1 := 1], (replicate 22 (0::real))[21 := 1]] ! 1) = 22 \<and>
        [(replicate 22 0)[1 := 1], (replicate 22 (0::real))[21 := 1]] ! 1 ! k = 1)"
proof -
  let ?M = "[(replicate 22 0)[1 := 1], (replicate 22 (0::real))[21 := 1]]"
  have run: "sequence_one_hot_encoding AminoAcid_sample ''C-'' = Inr ?M"
    by (simp add: sequence_one_hot_encoding_def isalpha_def isupper_def islower_def
        amino_acid_to_numeric_def getitem_def AminoAcid_sample_def upt_rec
        eval_nat_numeral)
  have one: "(1::nat) < length ''C-''" by simp
  from one_hot_single_one [OF alphabet_ok_sample run]
  have "\<forall>i<length ''C-''. \<exists>k<22.
          amino_acid_to_numeric AminoAcid_sample (''C-'' ! i) = Inr k \<and>
          length (?M ! i) = 22 \<and> (\<forall>j<22. ?M ! i ! j = (if j = k then 1 else 0))"
    by (rule conjunct2)
  with one obtain k where k: "k < 22"
    "amino_acid_to_numeric AminoAcid_sample (''C-'' ! 1) = Inr k"
    "length (?M ! 1) = 22"
    "\<forall>j<22. ?M ! 1 ! j = (if j = k then 1 else 0)"
    by blast
  from k(1,4) have "?M ! 1 ! k = (if k = k then 1 else 0)" by blast
  then have "?M ! 1 ! k = 1" by (simp only: if_True refl)
  with k(1,2,3) have "\<exists>k<22. amino_acid_to_numeric AminoAcid_sample (''C-'' ! 1) = Inr k \<and>
        length (?M ! 1) = 22 \<and> ?M ! 1 ! k = 1" by blast
  with run alphabet_ok_sample show ?thesis by (intro conjI)
qed

lemma fsum_Fin: "foldl fadd (Fin a) (map Fin xs) = Fin (a + sum_list xs)"
  by (induction xs arbitrary: a) (simp_all add: add.assoc)

lemma fsum_map_Fin: "fsum (map Fin xs) = Fin (sum_list xs)"
  by (simp add: fsum_def fsum_Fin)

lemma shape1_rect:
  assumes "a \<noteq> []" and "rect L a"
  shows "shape1 a = Inr L"
  using assms by (cases a) (simp_all add: shape1_def rect_def)

lemma sum_list_map_nth:
  "sum_list (map f xs) = (\<Sum>r < length xs. f (xs ! r))"
proof -
  have "sum_list (map f xs) = (\<Sum>r = 0 ..< length (map f xs). map f xs ! r)"
    by (rule sum_list_sum_nth)
  also have "\<dots> = (\<Sum>r < length xs. f (xs ! r))"
    by (simp add: atLeast0LessThan)
  finally show ?thesis .
qed

lemma sum0_indicator:
  assumes "rect L seq_mat" and "length weights = length seq_mat" and "j < L"
  shows "sum0 L (map (\<lambda>(row, w). indicator_row (int i) row w) (zip seq_mat weights)) ! j =
         symbol_weight seq_mat weights j i"
proof -
  let ?E = "map (\<lambda>(row, w). indicator_row (int i) row w) (zip seq_mat weights)"
  have len: "length ?E = length seq_mat" using assms(2) by simp
  have row: "?E ! r ! j = (if seq_mat ! r ! j = int i then weights ! r else 0)"
    if "r < length seq_mat" for r
  proof -
    from that assms(1) have "length (seq_mat ! r) = L"
      by (simp add: rect_def list_all_length)
    with that assms(2,3) show ?thesis by (simp add: indicator_row_def)
  qed
  have "sum0 L ?E ! j = sum_list (map (\<lambda>row. row ! j) ?E)"
    using assms(3) by (simp add: sum0_def)
  also have "\<dots> = (\<Sum>r < length ?E. ?E ! r ! j)"
    by (rule sum_list_map_nth)
  also have "\<dots> = (\<Sum>r < length seq_mat. ?E ! r ! j)"
    by (simp only: len)
  also have "\<dots> = symbol_weight seq_mat weights j i"
    unfolding symbol_weight_def by (rule sum.cong) (simp_all add: row del: nth_map nth_zip)
  finally show ?thesis .
qed

lemma length_sum0: "length (sum0 L a) = L"
  by (simp add: sum0_def)

lemma profile_columns_eq:
  assumes "length weights = length seq_mat"
  shows "profile_columns L seq_mat weights lo n =
         Inr (map (\<lambda>i. sum0 L (map (\<lambda>(row, w). indicator_row (int i) row w)
                                   (zip seq_mat weights))) [lo ..< lo + n])"
proof (induction n arbitrary: lo)
  case 0
  show ?case by simp
next
  case (Suc n)
  have "[lo ..< lo + Suc n] = lo # [Suc lo ..< Suc lo + n]"
    by (simp add: upt_rec)
  with Suc [of "Suc lo"] assms show ?case
    by (simp add: eq_times_weights_def)
qed


lemma sum_list_map_upt: "sum_list (map f [0 ..< n]) = (\<Sum>i < n. f i)"
  by (simp add: interv_sum_list_conv_sum_set_nat atLeast0LessThan)

lemma from_columns_map:
  "from_columns L (map c is) = map (\<lambda>j. map (\<lambda>i. c i ! j) is) [0 ..< L]"
  by (simp add: from_columns_def comp_def)

lemma normalize_rows_map:
  "normalize_rows (map (\<lambda>j. map (c j) [0 ..< n]) js) =
   map (\<lambda>j. map (\<lambda>i. fdiv (Fin (c j i)) (Fin (\<Sum>i < n. c j i))) [0 ..< n]) js"
  by (simp add: normalize_rows_def comp_def sum_list_map_upt)

lemma sequence_profile_rows:
  assumes "seq_mat \<noteq> []" and "rect L seq_mat" and "length weights = length seq_mat"
  shows "sequence_profile seq_mat (Some weights) =
         Inr (map (\<lambda>j. map (\<lambda>i. fdiv (Fin (symbol_weight seq_mat weights j i))
                                    (Fin (column_weight 22 seq_mat weights j))) [0 ..< 22])
                  [0 ..< L])"
proof -
  let ?col = "\<lambda>i. sum0 L (map (\<lambda>(row, w). indicator_row (int i) row w) (zip seq_mat weights))"
  have cols: "profile_columns L seq_mat weights 0 22 = Inr (map ?col [0 ..< 22])"
    using profile_columns_eq [OF assms(3), of L 0 22] by simp
  have "from_columns L (map ?col [0 ..< 22]) =
        map (\<lambda>j. map (\<lambda>i. ?col i ! j) [0 ..< 22]) [0 ..< L]"
    by (rule from_columns_map)
  also have "\<dots> = map (\<lambda>j. map (symbol_weight seq_mat weights j) [0 ..< 22]) [0 ..< L]"
    by (rule map_cong [OF refl], rule map_cong [OF refl])
       (simp add: sum0_indicator [OF assms(2,3)])
  finally have "normalize_rows (from_columns L (map ?col [0 ..< 22])) =
        map (\<lambda>j. map (\<lambda>i. fdiv (Fin (symbol_weight seq_mat weights j i))
                                    (Fin (column_weight 22 seq_mat weights j))) [0 ..< 22])
                  [0 ..< L]"
    by (simp only: normalize_rows_map column_weight_def)
  with cols shape1_rect [OF assms(1,2)] show ?thesis
    by (simp add: sequence_profile_def)
qed

lemma length_filter_sum:
  "real (length (filter P xs)) = (\<Sum>r < length xs. if P (xs ! r) then 1 else 0)"
proof -
  have "real (length (filter P xs)) = sum_list (map (\<lambda>x. if P x then 1 else 0) xs)"
    by (induction xs) simp_all
  then show ?thesis by (simp only: sum_list_map_nth)
qed

lemma count_eq_nth:
  assumes "j < L"
  shows "count_eq L seq_mat (int i) ! j =
         symbol_weight seq_mat (replicate (length seq_mat) 1) j i"
proof -
  have "count_eq L seq_mat (int i) ! j =
        (\<Sum>r < length seq_mat. if seq_mat ! r ! j = int i then 1 else 0)"
    using assms by (simp add: count_eq_def length_filter_sum)
  also have "\<dots> = symbol_weight seq_mat (replicate (length seq_mat) 1) j i"
    unfolding symbol_weight_def by (rule sum.cong) simp_all
  finally show ?thesis .
qed

lemma sequence_profile_no_gap_rows:
  assumes "seq_mat \<noteq> []" and "rect L seq_mat"
  shows "sequence_profile_no_gap seq_mat weights =
         Inr (map (\<lambda>j. map (\<lambda>i. fdiv
                 (Fin (symbol_weight seq_mat (replicate (length seq_mat) 1) j i))
                 (Fin (column_weight 21 seq_mat (replicate (length seq_mat) 1) j))) [0 ..< 21])
                  [0 ..< L])"
proof -
  let ?ones = "replicate (length seq_mat) (1::real)"
  let ?col = "\<lambda>i. count_eq L seq_mat (int i)"
  have "from_columns L (map ?col [0 ..< 21]) =
        map (\<lambda>j. map (\<lambda>i. ?col i ! j) [0 ..< 21]) [0 ..< L]"
    by (rule from_columns_map)
  also have "\<dots> = map (\<lambda>j. map (symbol_weight seq_mat ?ones j) [0 ..< 21]) [0 ..< L]"
    by (rule map_cong [OF refl], rule map_cong [OF refl]) (simp add: count_eq_nth)
  finally have "normalize_rows (from_columns L (map ?col [0 ..< 21])) =
        map (\<lambda>j. map (\<lambda>i. fdiv (Fin (symbol_weight seq_mat ?ones j i))
                                    (Fin (column_weight 21 seq_mat ?ones j))) [0 ..< 21])
                  [0 ..< L]"
    by (simp only: normalize_rows_map column_weight_def)
  with shape1_rect [OF assms(1,2)] show ?thesis
    by (simp add: sequence_profile_no_gap_def)
qed


lemma normalized_row_sum:
  assumes "(\<Sum>i < n. c i) \<noteq> (0::real)"
  shows "fsum (map (\<lambda>i. fdiv (Fin (c i)) (Fin (\<Sum>i < n. c i))) [0 ..< n]) = Fin 1"
proof -
  let ?T = "\<Sum>i < n. c i"
  have "map (\<lambda>i. fdiv (Fin (c i)) (Fin ?T)) [0 ..< n] = map Fin (map (\<lambda>i. c i / ?T) [0 ..< n])"
    using assms by simp
  then have "fsum (map (\<lambda>i. fdiv (Fin (c i)) (Fin ?T)) [0 ..< n]) =
             Fin (sum_list (map (\<lambda>i. c i / ?T) [0 ..< n]))"
    by (simp only: fsum_map_Fin)
  also have "sum_list (map (\<lambda>i. c i / ?T) [0 ..< n]) = (\<Sum>i < n. c i / ?T)"
    by (rule sum_list_map_upt)
  also have "\<dots> = ?T / ?T" by (simp only: sum_divide_distrib)
  also have "\<dots> = 1" using assms by simp
  finally show ?thesis .
qed

lemma symbol_weight_nonneg:
  assumes "\<forall>w\<in>set weights. 0 \<le> w" and "length weights = length seq_mat"
  shows "0 \<le> symbol_weight seq_mat weights j i"
  unfolding symbol_weight_def using assms by (intro sum_nonneg) auto

lemma column_weight_zero_symbols:
  assumes "\<forall>w\<in>set weights. 0 \<le> w" and "length weights = length seq_mat"
    and "column_weight n seq_mat weights j = 0" and "i < n"
  shows "symbol_weight seq_mat weights j i = 0"
proof -
  have "\<forall>i\<in>{..<n}. symbol_weight seq_mat weights j i = 0"
    using assms(3) symbol_weight_nonneg [OF assms(1,2)]
    by (simp add: column_weight_def sum_nonneg_eq_0_iff)
  with assms(4) show ?thesis by simp
qed

lemma fdiv_by_zero_not_Fin: "fdiv (Fin a) (Fin 0) \<noteq> Fin x"
  by simp

text \<open>
  Claim C9. In \<open>sequence_profile\<close>, for a matrix with at least one row, \<open>L\<close> columns
  and one finite weight per row: when the total weight of column \<open>j\<close> (the sum of row
  \<open>j\<close> of \<open>prof_ct\<close>, the divisor) is positive, the division is an ordinary one and
  entry \<open>(j, i)\<close> is the finite quotient; when the total is zero, no entry of that
  profile row is a finite number (so none is 0), and with non-negative weights every
  entry of the row is \<open>nan\<close>.
\<close>

theorem sequence_profile_division:
  assumes "seq_mat \<noteq> []" and "rect L seq_mat" and "length weights = length seq_mat"
    and "j < L" and "i < 22"
  shows "\<exists>prof. sequence_profile seq_mat (Some weights) = Inr prof \<and>
           length prof = L \<and> length (prof ! j) = 22 \<and>
           (0 < column_weight 22 seq_mat weights j \<longrightarrow>
              prof ! j ! i = Fin (symbol_weight seq_mat weights j i /
                                  column_weight 22 seq_mat weights j)) \<and>
           (column_weight 22 seq_mat weights j = 0 \<longrightarrow>
              (\<forall>x. prof ! j ! i \<noteq> Fin x) \<and>
              ((\<forall>w\<in>set weights. 0 \<le> w) \<longrightarrow> (\<forall>k<22. prof ! j ! k = NaN)))"
proof -
  let ?prof = "map (\<lambda>j. map (\<lambda>i. fdiv (Fin (symbol_weight seq_mat weights j i))
                                    (Fin (column_weight 22 seq_mat weights j))) [0 ..< 22])
                  [0 ..< L]"
  have run: "sequence_profile seq_mat (Some weights) = Inr ?prof"
    by (rule sequence_profile_rows [OF assms(1-3)])
  have entry: "?prof ! j ! k = fdiv (Fin (symbol_weight seq_mat weights j k))
                                    (Fin (column_weight 22 seq_mat weights j))"
    if "k < 22" for k
    using assms(4) that by simp
  have pos: "?prof ! j ! i = Fin (symbol_weight seq_mat weights j i /
                                  column_weight 22 seq_mat weights j)"
    if "0 < column_weight 22 seq_mat weights j"
    using that entry [OF assms(5)] by simp
  have zero: "\<forall>x. ?prof ! j ! i \<noteq> Fin x" if "column_weight 22 seq_mat weights j = 0"
    using that entry [OF assms(5)] by simp
  have nan: "\<forall>k<22. ?prof ! j ! k = NaN"
    if "column_weight 22 seq_mat weights j = 0" and "\<forall>w\<in>set weights. 0 \<le> w"
  proof (intro allI impI)
    fix k :: nat assume k: "k < 22"
    from column_weight_zero_symbols [OF that(2) assms(3) that(1) k]
    show "?prof ! j ! k = NaN" using that(1) entry [OF k] by simp
  qed
  have "length ?prof = L" "length (?prof ! j) = 22" using assms(4) by simp_all
  with run pos zero nan show ?thesis by blast
qed

lemma cw_example_zero: "column_weight 22 [[0, 1], [0, 2]] [0, 0] 0 = 0"
  by code_simp

lemma cw_example_one: "column_weight 22 [[0, 1], [0, 2]] [1, 3] 0 = 4"
  by code_simp

lemma sw_example_one: "symbol_weight [[0, 1], [0, 2]] [1, 3] 0 0 = 4"
  by code_simp


theorem sequence_profile_division_witness:
  "(\<exists>prof. sequence_profile [[0, 1], [0, 2]] (Some [1, 3]) = Inr prof \<and>
       length prof = 2 \<and> prof ! 0 ! 0 = Fin 1) \<and>
   (\<exists>prof. sequence_profile [[0, 1], [0, 2]] (Some [0, 0]) = Inr prof \<and>
       length prof = 2 \<and> prof ! 0 ! 0 = NaN)"
proof -
  have ne: "[[0, 1], [0, 2::int]] \<noteq> []" by simp
  have r: "rect 2 [[0, 1], [0, 2::int]]" by (simp add: rect_def)
  have l1: "length [1, 3::real] = length [[0, 1], [0, 2::int]]" by simp
  have l0: "length [0, 0::real] = length [[0, 1], [0, 2::int]]" by simp
  have j: "(0::nat) < 2" and i: "(0::nat) < 22" by simp_all
  have nonneg: "\<forall>w\<in>set [0, 0::real]. 0 \<le> w" by simp
  from sequence_profile_division [OF ne r l1 j i]
  have a: "\<exists>prof. sequence_profile [[0, 1], [0, 2]] (Some [1, 3]) = Inr prof \<and>
       length prof = 2 \<and> prof ! 0 ! 0 = Fin 1"
    by (simp add: cw_example_one sw_example_one) blast
  from sequence_profile_division [OF ne r l0 j i] nonneg
  have b: "\<exists>prof. sequence_profile [[0, 1], [0, 2]] (Some [0, 0]) = Inr prof \<and>
       length prof = 2 \<and> prof ! 0 ! 0 = NaN"
    by (simp add: cw_example_zero) (use i in blast)
  from a b show ?thesis by (rule conjI)
qed


lemma to_numeric_total:
  assumes "alphabet_ok tbl"
  shows "\<exists>ks. to_numeric tbl s = Inr ks \<and> length ks = length s \<and>
          (\<forall>i<length s. amino_acid_to_numeric tbl (s ! i) = Inr (ks ! i))"
proof (induction s)
  case Nil
  show ?case by simp
next
  case (Cons c cs)
  then obtain ks where ks: "to_numeric tbl cs = Inr ks" "length ks = length cs"
    "\<forall>i<length cs. amino_acid_to_numeric tbl (cs ! i) = Inr (ks ! i)" by blast
  from assms obtain k where k: "amino_acid_to_numeric tbl c = Inr k"
    using amino_acid_to_numeric_total by blast
  have "amino_acid_to_numeric tbl ((c # cs) ! i) = Inr ((k # ks) ! i)"
    if "i < length (c # cs)" for i
    using that k ks(3) by (cases i) simp_all
  with k ks(1,2) show ?case by simp
qed

lemma filter_same_length:
  assumes "length (filter P xs) = length xs"
  shows "filter P xs = xs"
  using assms
proof (induction xs)
  case Nil
  show ?case by simp
next
  case (Cons x xs)
  have le: "length (filter P xs) \<le> length xs" by (rule length_filter_le)
  show ?case
  proof (cases "P x")
    case True
    with Cons show ?thesis by simp
  next
    case False
    with Cons.prems le show ?thesis by simp
  qed
qed

lemma alphabet_gap:
  assumes "alphabet_ok tbl"
  shows "\<exists>gap. getitem tbl (CHR ''-'') = Inr gap \<and> map_of tbl (CHR ''-'') = Some gap"
  using assms by (auto simp: alphabet_ok_def getitem_def)

lemma sequence_identity_same_length:
  assumes "getitem tbl (CHR ''-'') = Inr gap" and "length s1 = length s2"
  shows "sequence_identity tbl s1 s2 = Inr (match_count gap s1 s2)"
  using assms by (simp add: sequence_identity_def)

lemma a3m_rows_clean:
  assumes ok: "alphabet_ok tbl" and gap: "getitem tbl (CHR ''-'') = Inr gap"
    and al: "\<forall>seq\<in>set rows. length (filter (\<lambda>s. \<not> islower s) seq) = length q"
  shows "a3m_rows tbl True q rows =
         Inr (filter (\<lambda>e. \<not> real (match_count gap q e) < real (length q) * 0.01)
                (map (\<lambda>seq. projr (to_numeric tbl (filter (\<lambda>s. \<not> islower s) seq))) rows))"
  using al
proof (induction rows)
  case Nil
  show ?case by simp
next
  case (Cons seq rest)
  let ?st = "filter (\<lambda>s. \<not> islower s) seq"
  from to_numeric_total [OF ok, of ?st] obtain e
    where e: "to_numeric tbl ?st = Inr e" "length e = length ?st" by blast
  from Cons.prems have "length ?st = length q" by simp
  with e have id: "sequence_identity tbl q e = Inr (match_count gap q e)"
    by (simp add: sequence_identity_same_length [OF gap])
  from Cons have IH: "a3m_rows tbl True q rest =
         Inr (filter (\<lambda>e. \<not> real (match_count gap q e) < real (length q) * 0.01)
                (map (\<lambda>seq. projr (to_numeric tbl (filter (\<lambda>s. \<not> islower s) seq))) rest))"
    by simp
  show ?case by (simp add: e(1) id IH)
qed

lemma as_int_matrix_rect:
  assumes "\<forall>r\<in>set seq_mat. length r = L"
  shows "as_int_matrix seq_mat = Inr (map (map int) seq_mat)"
  using assms by (cases seq_mat) (simp_all add: as_int_matrix_def list_all_iff)

lemma map_int_mem: "map int e \<in> set (map (map int) xs) \<longleftrightarrow> e \<in> set xs"
proof -
  have "inj (map int)" by simp
  then show ?thesis by (auto dest: injD)
qed


lemma to_numeric_map:
  assumes "alphabet_ok tbl"
  shows "to_numeric tbl s = Inr (map (\<lambda>c. projr (amino_acid_to_numeric tbl c)) s)"
proof (induction s)
  case Nil
  show ?case by simp
next
  case (Cons c cs)
  from assms obtain k where "amino_acid_to_numeric tbl c = Inr k"
    using amino_acid_to_numeric_total by blast
  with Cons show ?case by simp
qed

lemma alphabet_ok_inj:
  assumes "alphabet_ok tbl" and "map_of tbl a = Some v" and "map_of tbl b = Some v"
  shows "a = b"
proof -
  from assms(1) have inj: "inj_on snd (set tbl)"
    by (simp add: alphabet_ok_def distinct_map)
  from assms(2,3) have mem: "(a, v) \<in> set tbl" "(b, v) \<in> set tbl"
    by (auto dest: map_of_SomeD)
  have "snd (a, v) = snd (b, v)" by simp
  from inj_onD [OF inj this mem] show ?thesis by simp
qed

lemma gap_index_iff:
  assumes "alphabet_ok tbl" and "map_of tbl (CHR ''-'') = Some gap"
  shows "projr (amino_acid_to_numeric tbl c) = gap \<longleftrightarrow> c = CHR ''-''"
proof (cases "map_of tbl c")
  case None
  from assms(1) obtain x where x: "map_of tbl (CHR ''X'') = Some x"
    by (auto simp: alphabet_ok_def)
  have "x \<noteq> gap"
  proof
    assume "x = gap"
    with x assms have "CHR ''X'' = CHR ''-''" by (auto dest: alphabet_ok_inj)
    then show False by simp
  qed
  moreover from None assms(2) have "c \<noteq> CHR ''-''" by auto
  ultimately show ?thesis using None x
    by (simp add: amino_acid_to_numeric_def getitem_def)
next
  case (Some i)
  then have "projr (amino_acid_to_numeric tbl c) = i"
    by (simp add: amino_acid_to_numeric_def getitem_def)
  moreover have "i = gap \<longleftrightarrow> c = CHR ''-''"
    using Some assms by (auto dest: alphabet_ok_inj)
  ultimately show ?thesis by simp
qed

lemma match_count_self:
  "match_count gap (map f s) (map f s) = length (filter (\<lambda>c. f c \<noteq> gap) s)"
  by (induction s) (simp_all add: match_count_def)

lemma identity_query_self:
  assumes "alphabet_ok tbl" and "map_of tbl (CHR ''-'') = Some gap"
    and "to_numeric tbl s = Inr q"
  shows "match_count gap q q = length (filter (\<lambda>c. c \<noteq> CHR ''-'') s)"
proof -
  from assms(1,3) have "q = map (\<lambda>c. projr (amino_acid_to_numeric tbl c)) s"
    by (simp add: to_numeric_map)
  then have "match_count gap q q =
      length (filter (\<lambda>c. projr (amino_acid_to_numeric tbl c) \<noteq> gap) s)"
    by (simp only: match_count_self)
  then show ?thesis by (simp add: gap_index_iff [OF assms(1,2)])
qed

text \<open>
  The filter on an aligned input: when every row has the query's length once its
  lower-case characters are removed, \<open>read_a3m_as_mat\<close> returns a matrix, a row is in it
  exactly when its identity score is not below 0.01 times the query length, and the query
  row comes first whenever at least one in a hundred of its characters is not a gap.
\<close>

lemma read_a3m_as_mat_aligned:
  assumes "alphabet_ok tbl" and "a3m_seqs = sequence # rest"
    and "\<forall>seq\<in>set a3m_seqs. length (filter (\<lambda>s. \<not> islower s) seq) = length sequence"
  shows "\<exists>q m. to_numeric tbl sequence = Inr q \<and>
           read_a3m_as_mat tbl sequence ids a3m_seqs True = Inr m \<and>
           (\<forall>seq\<in>set a3m_seqs. \<exists>e k.
               to_numeric tbl (filter (\<lambda>s. \<not> islower s) seq) = Inr e \<and>
               sequence_identity tbl q e = Inr k \<and>
               (map int e \<in> set m \<longleftrightarrow> \<not> real k < 0.01 * real (length sequence))) \<and>
           (length sequence \<le> 100 * length (filter (\<lambda>s. s \<noteq> CHR ''-'') sequence) \<longrightarrow>
               m \<noteq> [] \<and> hd m = map int q)"
proof -
  let ?strip = "filter (\<lambda>s. \<not> islower s)"
  let ?enc = "\<lambda>seq. projr (to_numeric tbl (?strip seq))"
  from alphabet_gap [OF assms(1)] obtain gap
    where gap: "getitem tbl (CHR ''-'') = Inr gap" "map_of tbl (CHR ''-'') = Some gap"
    by blast
  from to_numeric_total [OF assms(1), of sequence] obtain q
    where q: "to_numeric tbl sequence = Inr q" "length q = length sequence" by blast
  let ?keep = "\<lambda>e. \<not> real (match_count gap q e) < real (length q) * 0.01"
  let ?kept = "filter ?keep (map ?enc a3m_seqs)"
  have enc: "to_numeric tbl (?strip seq) = Inr (?enc seq) \<and> length (?enc seq) = length q"
    if "seq \<in> set a3m_seqs" for seq
  proof -
    from to_numeric_total [OF assms(1), of "?strip seq"] obtain e
      where "to_numeric tbl (?strip seq) = Inr e" "length e = length (?strip seq)" by blast
    with that assms(3) q(2) show ?thesis by simp
  qed
  have rows: "a3m_rows tbl True q a3m_seqs = Inr ?kept"
    using assms(3) q(2) by (intro a3m_rows_clean [OF assms(1) gap(1)]) simp
  have "\<forall>r\<in>set ?kept. length r = length q" using enc by auto
  then have mat: "as_int_matrix ?kept = Inr (map (map int) ?kept)"
    by (rule as_int_matrix_rect)
  let ?m = "map (map int) ?kept"
  have run: "read_a3m_as_mat tbl sequence ids a3m_seqs True = Inr ?m"
    using assms(2) q(1) rows mat by (simp add: read_a3m_as_mat_def)
  have each: "\<exists>e k. to_numeric tbl (?strip seq) = Inr e \<and> sequence_identity tbl q e = Inr k \<and>
               (map int e \<in> set ?m \<longleftrightarrow> \<not> real k < 0.01 * real (length sequence))"
    if "seq \<in> set a3m_seqs" for seq
  proof -
    from enc [OF that] have e: "to_numeric tbl (?strip seq) = Inr (?enc seq)"
      and le: "length q = length (?enc seq)" by simp_all
    have id: "sequence_identity tbl q (?enc seq) = Inr (match_count gap q (?enc seq))"
      by (rule sequence_identity_same_length [OF gap(1) le])
    have "map int (?enc seq) \<in> set ?m \<longleftrightarrow> ?enc seq \<in> set ?kept"
      by (rule map_int_mem)
    also have "\<dots> \<longleftrightarrow> ?keep (?enc seq)" using that by auto
    finally have "map int (?enc seq) \<in> set ?m \<longleftrightarrow>
        \<not> real (match_count gap q (?enc seq)) < 0.01 * real (length sequence)"
      by (simp add: q(2) mult.commute)
    with e id show ?thesis by blast
  qed
  have first: "?m \<noteq> [] \<and> hd ?m = map int q"
    if "length sequence \<le> 100 * length (filter (\<lambda>s. s \<noteq> CHR ''-'') sequence)"
  proof -
    from assms(2,3) have "length (?strip sequence) = length sequence" by simp
    then have "?strip sequence = sequence" by (rule filter_same_length)
    with q(1) have eq: "?enc sequence = q" by simp
    have "match_count gap q q = length (filter (\<lambda>s. s \<noteq> CHR ''-'') sequence)"
      by (rule identity_query_self [OF assms(1) gap(2) q(1)])
    with that q(2) have "length q \<le> 100 * match_count gap q q" by simp
    then have "real (length q) \<le> 100 * real (match_count gap q q)"
      by (metis of_nat_le_iff of_nat_mult of_nat_numeral)
    then have "?keep q" by simp
    with eq assms(2) have "?kept = q # filter ?keep (map ?enc rest)" by simp
    then show ?thesis by simp
  qed
  from q(1) run each first show ?thesis by blast
qed


lemma to_numeric_sample_AC: "to_numeric AminoAcid_sample ''AC'' = Inr [0, 1]"
  by (simp add: amino_acid_to_numeric_def getitem_def AminoAcid_sample_def upt_rec)


lemma code_pair_iff:
  fixes x y a b :: int
  assumes "0 \<le> y" "y < 22" "0 \<le> b" "b < 22"
  shows "x * 22 + y = a * 22 + b \<longleftrightarrow> x = a \<and> y = b"
proof
  assume eq: "x * 22 + y = a * 22 + b"
  have "x \<le> a" using eq assms by linarith
  moreover have "a \<le> x" using eq assms by linarith
  ultimately have "x = a" by simp
  with eq show "x = a \<and> y = b" by simp
next
  assume "x = a \<and> y = b"
  then show "x * 22 + y = a * 22 + b" by simp
qed

lemma sum0_layers_nth:
  assumes "i < N" and "j < N"
  shows "sum0_layers N layers ! i ! j = (\<Sum>r < length layers. layers ! r ! i ! j)"
  using assms by (simp add: sum0_layers_def sum_list_map_nth)

lemma eq_times_w_nth:
  assumes "rect N seq_mat" and "length w = length seq_mat"
    and "r < length seq_mat" and "i < N" and "j < N"
  shows "eq_times_w (combined seq_mat) code w ! r ! i ! j =
         (if seq_mat ! r ! i * 22 + seq_mat ! r ! j = code then w ! r else 0)"
proof -
  from assms(1,3) have "length (seq_mat ! r) = N"
    by (simp add: rect_def list_all_length)
  with assms(2-5) show ?thesis
    by (simp add: eq_times_w_def combined_def)
qed

lemma slice_nth:
  assumes "rect N seq_mat" and "length w = length seq_mat" and "entries_in 22 seq_mat"
    and "i < N" and "j < N" and "a < 22" and "b < 22"
  shows "sum0_layers N (eq_times_w (combined seq_mat) (int a * 22 + int b) w) ! i ! j =
         pair_weight seq_mat w i j (int a) (int b)"
proof -
  let ?E = "eq_times_w (combined seq_mat) (int a * 22 + int b) w"
  have len: "length ?E = length seq_mat"
    using assms(2) by (simp add: eq_times_w_def combined_def)
  have "?E ! r ! i ! j =
        (if seq_mat ! r ! i = int a \<and> seq_mat ! r ! j = int b then w ! r else 0)"
    if r: "r < length seq_mat" for r
  proof -
    from assms(1) r have lr: "length (seq_mat ! r) = N"
      by (simp add: rect_def list_all_length)
    from assms(3) r have "list_all (\<lambda>x. 0 \<le> x \<and> x < 22) (seq_mat ! r)"
      by (simp add: entries_in_def list_all_length)
    with lr assms(5) have y: "0 \<le> seq_mat ! r ! j" "seq_mat ! r ! j < 22"
      by (simp_all add: list_all_length)
    from assms(7) have b: "0 \<le> int b" "int b < 22" by simp_all
    show ?thesis
      by (simp only: eq_times_w_nth [OF assms(1,2) r assms(4,5)] code_pair_iff [OF y b])
  qed
  then have "(\<Sum>r < length seq_mat. ?E ! r ! i ! j) = pair_weight seq_mat w i j (int a) (int b)"
    unfolding pair_weight_def by (intro sum.cong) simp_all
  with len show ?thesis by (simp add: sum0_layers_nth [OF assms(4,5)])
qed

text \<open>
  Claim C2. For a matrix with at least one row, \<open>N\<close> columns and entries in \<open>0..21\<close>, one
  finite weight per row, and a profile with \<open>R \<le> 22\<close> columns (21 and 22 are the two
  cases in use): \<open>profile_combinatorial\<close> returns a tensor whose entry \<open>[i, j, a, b]\<close>
  is the weight of the rows with type \<open>a\<close> in column \<open>i\<close> and type \<open>b\<close> in column \<open>j\<close>,
  divided (NumPy division) by the sum of all weights.
\<close>

theorem profile_combinatorial_entry:
  assumes "seq_mat \<noteq> []" and "rect N seq_mat" and "entries_in 22 seq_mat"
    and "length weights = length seq_mat"
    and "shape1 w_prof = Inr R" and "R = 21 \<or> R = 22"
    and "i < N" and "j < N" and "a < R" and "b < R"
  shows "\<exists>prof_2D. profile_combinatorial seq_mat weights w_prof = Inr prof_2D \<and>
           prof_2D ! i ! j ! a ! b =
             fdiv (Fin (pair_weight seq_mat weights i j (int a) (int b)))
                  (Fin (sum_list weights))"
proof -
  from assms(1) obtain row0 rest where sm: "seq_mat = row0 # rest" by (cases seq_mat) auto
  with assms(2) have N: "length row0 = N" by (simp add: rect_def)
  from assms(6,9,10) have ab: "a < 22" "b < 22" by auto
  let ?slices = "map (\<lambda>i. map (\<lambda>j.
       sum0_layers N (eq_times_w (combined seq_mat) (int i * 22 + int j) weights))
       [0 ..< R]) [0 ..< R]"
  let ?prof = "map (\<lambda>c1. map (\<lambda>c2. map (\<lambda>i. map (\<lambda>j.
       fdiv (Fin (?slices ! i ! j ! c1 ! c2)) (Fin (sum_list weights)))
       [0 ..< R]) [0 ..< R]) [0 ..< N]) [0 ..< N]"
  have run: "profile_combinatorial seq_mat weights w_prof = Inr ?prof"
    using assms(4,5) N sm by (simp add: profile_combinatorial_def Let_def)
  have "?prof ! i ! j ! a ! b =
        fdiv (Fin (?slices ! a ! b ! i ! j)) (Fin (sum_list weights))"
    using assms(7-10) by simp
  also have "?slices ! a ! b ! i ! j =
        sum0_layers N (eq_times_w (combined seq_mat) (int a * 22 + int b) weights) ! i ! j"
    using assms(9,10) by simp
  also have "\<dots> = pair_weight seq_mat weights i j (int a) (int b)"
    by (rule slice_nth [OF assms(2,4,3,7,8) ab])
  finally have entry: "?prof ! i ! j ! a ! b =
        fdiv (Fin (pair_weight seq_mat weights i j (int a) (int b))) (Fin (sum_list weights))" .
  show ?thesis by (intro exI conjI, rule run, rule entry)
qed


lemma pair_weight_example: "pair_weight [[0, 1], [0, 2]] [1, 3] 0 (Suc 0) 0 2 = 3"
  by code_simp

theorem profile_combinatorial_entry_witness:
  "\<exists>prof_2D. profile_combinatorial [[0, 1], [0, 2]] [1, 3] [replicate 22 (Fin 0)] = Inr prof_2D \<and>
      prof_2D ! 0 ! 1 ! 0 ! 2 = Fin (3 / 4)"
proof -
  have ne: "[[0, 1], [0, 2::int]] \<noteq> []" by simp
  have r: "rect 2 [[0, 1], [0, 2::int]]" by (simp add: rect_def)
  have e: "entries_in 22 [[0, 1], [0, 2]]" by (simp add: entries_in_def)
  have l: "length [1, 3::real] = length [[0, 1], [0, 2::int]]" by simp
  have s: "shape1 [replicate 22 (Fin 0)] = Inr 22" by (simp add: shape1_def)
  have R: "(22::nat) = 21 \<or> (22::nat) = 22" by simp
  have idx: "(0::nat) < 2" "(1::nat) < 2" "(0::nat) < 22" "(2::nat) < 22" by simp_all
  from profile_combinatorial_entry [OF ne r e l s R idx]
  show ?thesis by (simp add: pair_weight_example)
qed

lemma pred_product_Suc: "(n::nat) * (n - 1) + 2 * n = Suc n * n"
  by (cases n) simp_all

lemma length_pdist: "2 * length (pdist xs) = length xs * (length xs - 1)"
proof (induction xs)
  case Nil
  show ?case by simp
next
  case (Cons x xs)
  have "2 * length (pdist (x # xs)) = 2 * length (pdist xs) + 2 * length xs" by simp
  also have "\<dots> = length xs * (length xs - 1) + 2 * length xs" by (simp only: Cons.IH)
  also have "\<dots> = Suc (length xs) * length xs" by (rule pred_product_Suc)
  finally show ?case by simp
qed

lemma find_unique:
  assumes "x \<in> set xs" and "P x" and "\<forall>y\<in>set xs. P y \<longrightarrow> y = x"
  shows "find P xs = Some x"
  using assms
proof (induction xs)
  case Nil
  then show ?case by simp
next
  case (Cons a xs)
  show ?case
  proof (cases "P a")
    case True
    with Cons.prems(3) have "a = x" by simp
    with True show ?thesis by simp
  next
    case False
    with Cons.prems(1,2) have mem: "x \<in> set xs" by auto
    from Cons.prems(3) have rest: "\<forall>y\<in>set xs. P y \<longrightarrow> y = x"
      by (blast intro: list.set_intros)
    from Cons.IH [OF mem Cons.prems(2) rest] False show ?thesis by simp
  qed
qed

lemma pred_product_strict:
  assumes "1 \<le> d" and "d < (m::nat)"
  shows "d * (d - 1) < m * (m - 1)"
proof -
  from assms have "d * (d - 1) \<le> d * (m - 1)" by simp
  also from assms have "d * (m - 1) < m * (m - 1)" by simp
  finally show ?thesis .
qed

lemma pred_product_inj:
  assumes "1 \<le> d" and "1 \<le> (m::nat)" and "d * (d - 1) = m * (m - 1)"
  shows "d = m"
proof (rule ccontr)
  assume "d \<noteq> m"
  then consider "d < m" | "m < d" by linarith
  then show False
  proof cases
    case 1
    from pred_product_strict [OF assms(1) 1] assms(3) show False by simp
  next
    case 2
    from pred_product_strict [OF assms(2) 2] assms(3) show False by simp
  qed
qed

lemma square_dim_eq:
  assumes "1 \<le> m" and "2 * n = m * (m - 1)"
  shows "square_dim n = Some m"
proof -
  have "m \<le> n + 1"
  proof (cases "m = 1")
    case True
    then show ?thesis by simp
  next
    case False
    with assms(1) have "2 \<le> m" by simp
    then have "2 * (m - 1) \<le> m * (m - 1)" by (rule mult_le_mono1)
    with assms(2) have "2 * (m - 1) \<le> 2 * n" by (simp only:)
    then show ?thesis by linarith
  qed
  with assms(1) have "1 \<le> m \<and> m < n + 2" by linarith
  then have mem: "m \<in> set [1 ..< n + 2]"
    by (simp only: set_upt atLeastLessThan_iff)
  have uniq: "\<forall>d\<in>set [1 ..< n + 2]. d * (d - 1) = 2 * n \<longrightarrow> d = m"
  proof (intro ballI impI)
    fix d assume d: "d \<in> set [1 ..< n + 2]" "d * (d - 1) = 2 * n"
    from d(1) have d1: "1 \<le> d" by (simp only: set_upt atLeastLessThan_iff)
    from d(2) assms(2) have eq: "d * (d - 1) = m * (m - 1)" by (simp only:)
    show "d = m" by (rule pred_product_inj [OF d1 assms(1) eq])
  qed
  have P: "m * (m - 1) = 2 * n" using assms(2) by (rule sym)
  from find_unique [of m "[1 ..< n + 2]" "\<lambda>d. d * (d - 1) = 2 * n", OF mem P uniq]
  show ?thesis by (simp only: square_dim_def)
qed

lemma triangle_Suc: "Suc i * (Suc i + 1) div 2 = i * (i + 1) div 2 + Suc i"
proof -
  have "Suc i * (Suc i + 1) = i * (i + 1) + Suc i * 2" by (simp add: algebra_simps)
  then have "Suc i * (Suc i + 1) div 2 = (i * (i + 1) + Suc i * 2) div 2" by (simp only:)
  also have "\<dots> = Suc i + i * (i + 1) div 2" by (rule div_mult_self1) simp
  finally show ?thesis by (simp only: add.commute)
qed

lemma triangle_le:
  assumes "i < (n::nat)"
  shows "i * (i + 1) div 2 \<le> n * i"
proof -
  from assms have "i + 1 \<le> n" by linarith
  then have "i * (i + 1) \<le> i * n" by (rule mult_le_mono2)
  moreover have "i * (i + 1) div 2 \<le> i * (i + 1)" by (rule div_le_dividend)
  ultimately have "i * (i + 1) div 2 \<le> i * n" by (rule order_trans [rotated])
  then show ?thesis by (simp only: mult.commute)
qed

lemma shift_index:
  fixes T N n i r :: nat
  assumes "T \<le> N"
  shows "(N + n + i + 1) - (T + Suc i) + r = n + (N - T + r)"
  using assms by linarith

lemma condensed_index_Suc:
  assumes "i < n" and "i < j"
  shows "condensed_index (Suc n) (Suc i) (Suc j) = n + condensed_index n i j"
proof -
  have a: "Suc n * Suc i = n * i + n + i + 1" by simp
  have b: "Suc i * (Suc i + 1) div 2 = i * (i + 1) div 2 + Suc i" by (rule triangle_Suc)
  have c: "i * (i + 1) div 2 \<le> n * i" using assms(1) by (rule triangle_le)
  have "condensed_index (Suc n) (Suc i) (Suc j) =
        Suc n * Suc i - Suc i * (Suc i + 1) div 2 + (Suc j - Suc i - 1)"
    by (simp only: condensed_index_def)
  also have "\<dots> = (n * i + n + i + 1) - (i * (i + 1) div 2 + Suc i) + (j - i - 1)"
    by (simp only: a b diff_Suc_Suc)
  also have "\<dots> = n + (n * i - i * (i + 1) div 2 + (j - i - 1))"
    using c by (rule shift_index)
  finally show ?thesis by (simp only: condensed_index_def)
qed

lemma pdist_nth:
  assumes "i < j" and "j < length xs"
  shows "condensed_index (length xs) i j < length (pdist xs) \<and>
         pdist xs ! condensed_index (length xs) i j = hamming (xs ! i) (xs ! j)"
  using assms
proof (induction xs arbitrary: i j)
  case Nil
  then show ?case by simp
next
  case (Cons x xs)
  show ?case
  proof (cases i)
    case 0
    with Cons.prems obtain j' where j: "j = Suc j'" "j' < length xs"
      by (cases j) auto
    have "condensed_index (length (x # xs)) 0 j = j'"
      using j by (simp add: condensed_index_def)
    with 0 j show ?thesis by (simp add: nth_append)
  next
    case (Suc i')
    with Cons.prems obtain j' where j: "j = Suc j'" "i' < j'" "j' < length xs"
      by (cases j) auto
    then have i': "i' < length xs" by simp
    from Cons.IH [OF j(2,3)]
    have IH: "condensed_index (length xs) i' j' < length (pdist xs)"
      "pdist xs ! condensed_index (length xs) i' j' = hamming (xs ! i') (xs ! j')"
      by simp_all
    have "condensed_index (length (x # xs)) i j =
          length xs + condensed_index (length xs) i' j'"
      using condensed_index_Suc [OF i' j(2)] Suc j(1) by simp
    with IH Suc j(1) show ?thesis by (simp add: nth_append)
  qed
qed

lemma diff_count_sym: "diff_count u v = diff_count v u"
  unfolding diff_count_def
proof (induction u v rule: list_induct2')
  case (4 x xs y ys)
  then show ?case by (cases "x = y") simp_all
qed simp_all

lemma hamming_sym:
  assumes "length u = length v"
  shows "hamming u v = hamming v u"
  unfolding hamming_def by (simp only: assms diff_count_sym [of u v])

lemma rect_nth: "rect L a \<Longrightarrow> r < length a \<Longrightarrow> length (a ! r) = L"
  by (simp add: rect_def list_all_length)

lemma squareform_pdist:
  assumes "xs \<noteq> []" and "rect L xs"
  shows "squareform (map (\<lambda>d. flt d c) (pdist xs)) =
         Inr (map (\<lambda>i. map (\<lambda>j. i \<noteq> j \<and> flt (hamming (xs ! i) (xs ! j)) c)
                     [0 ..< length xs]) [0 ..< length xs])"
proof -
  let ?M = "length xs"
  let ?v = "map (\<lambda>d. flt d c) (pdist xs)"
  from assms(1) have M1: "1 \<le> ?M" by (cases xs) simp_all
  have "2 * length ?v = ?M * (?M - 1)" by (simp only: length_map length_pdist)
  with M1 have dim: "square_dim (length ?v) = Some ?M" by (rule square_dim_eq)
  have entry: "(if i = j then False else ?v ! condensed_index ?M (min i j) (max i j)) =
               (i \<noteq> j \<and> flt (hamming (xs ! i) (xs ! j)) c)"
    if "i < ?M" and "j < ?M" for i j
  proof -
    consider "i = j" | "i < j" | "j < i" by linarith
    then show ?thesis
    proof cases
      case 1
      then show ?thesis by simp
    next
      case 2
      from pdist_nth [OF 2 that(2)] 2 show ?thesis by (simp add: min_def max_def)
    next
      case 3
      from that assms(2) have "length (xs ! j) = length (xs ! i)" by (simp add: rect_nth)
      then have "hamming (xs ! j) (xs ! i) = hamming (xs ! i) (xs ! j)" by (rule hamming_sym)
      with pdist_nth [OF 3 that(1)] 3 show ?thesis by (simp add: min_def max_def)
    qed
  qed
  have "map (\<lambda>i. map (\<lambda>j. if i = j then False
                 else ?v ! condensed_index ?M (min i j) (max i j)) [0 ..< ?M]) [0 ..< ?M] =
        map (\<lambda>i. map (\<lambda>j. i \<noteq> j \<and> flt (hamming (xs ! i) (xs ! j)) c) [0 ..< ?M]) [0 ..< ?M]"
    by (rule map_cong [OF refl], rule map_cong [OF refl]) (simp add: entry del: length_map)
  with dim show ?thesis by (simp only: squareform_def option.case)
qed

lemma column_count:
  assumes "j < M"
  shows "length (filter (\<lambda>row. row ! j) (map (\<lambda>i. map (P i) [0 ..< M]) [0 ..< M])) =
         card {i. i < M \<and> P i j}"
proof -
  have "length (filter (\<lambda>row. row ! j) (map (\<lambda>i. map (P i) [0 ..< M]) [0 ..< M])) =
        length (filter (\<lambda>i. map (P i) [0 ..< M] ! j) [0 ..< M])"
    by (simp only: filter_map length_map comp_def)
  also have "\<dots> = length (filter (\<lambda>i. P i j) [0 ..< M])"
    using assms by simp
  also have "\<dots> = card {i. i < length [0 ..< M] \<and> P ([0 ..< M] ! i) j}"
    by (rule length_filter_conv_card)
  also have "{i. i < length [0 ..< M] \<and> P ([0 ..< M] ! i) j} = {i. i < M \<and> P i j}"
    by (rule Collect_cong) auto
  finally show ?thesis .
qed

lemma list_case_nonempty:
  "xs \<noteq> [] \<Longrightarrow> (case xs of [] \<Rightarrow> a | x # ys \<Rightarrow> b) = b"
  by (cases xs) simp_all

lemma flt_hamming:
  assumes "length u = L" and "0 < L"
  shows "flt (hamming u v) c \<longleftrightarrow> real (diff_count u v) / real L < c"
  using assms by (simp add: hamming_def)

text \<open>
  Claim C4. For a matrix of \<open>M \<ge> 2\<close> rows and \<open>L\<close> columns, \<open>sequence_weights\<close> returns
  \<open>M\<close> weights, and the weight of row \<open>i\<close> is \<open>1 / (1 + n)\<close>, with \<open>n\<close> the number of the
  other rows whose Hamming distance to row \<open>i\<close> is below 0.38. The distance is SciPy's:
  for \<open>L > 0\<close> it is the number of differing positions divided by \<open>L\<close>, and the
  comparison is the strict one on that fraction.
\<close>

theorem sequence_weights_formula:
  assumes "rect L seq_mat" and "2 \<le> length seq_mat" and "i < length seq_mat"
  shows "\<exists>w. sequence_weights seq_mat = Inr w \<and> length w = length seq_mat \<and>
           w ! i = 1 / (1 + real (card {j. j < length seq_mat \<and> j \<noteq> i \<and>
                                     flt (hamming (seq_mat ! i) (seq_mat ! j)) 0.38})) \<and>
           (0 < L \<longrightarrow> (\<forall>j<length seq_mat.
               flt (hamming (seq_mat ! i) (seq_mat ! j)) 0.38 \<longleftrightarrow>
               real (diff_count (seq_mat ! i) (seq_mat ! j)) / real L < 0.38))"
proof -
  let ?M = "length seq_mat"
  let ?near = "\<lambda>i j. i \<noteq> j \<and> flt (hamming (seq_mat ! i) (seq_mat ! j)) 0.38"
  let ?sq = "map (\<lambda>i. map (?near i) [0 ..< ?M]) [0 ..< ?M]"
  let ?weights = "map (\<lambda>j. 1 + length (filter (\<lambda>row. row ! j) ?sq)) [0 ..< length ?sq]"
  let ?w = "map (\<lambda>w. 1 / real w) ?weights"
  from assms(2) obtain row0 rest where sm: "seq_mat = row0 # rest"
    by (cases seq_mat) auto
  then have ne: "seq_mat \<noteq> []" by simp
  have sq: "squareform (map (\<lambda>d. flt d 0.38) (pdist seq_mat)) = Inr ?sq"
    by (rule squareform_pdist [OF ne assms(1)])
  have lw: "length ?weights = ?M" by simp
  have "sequence_weights seq_mat =
        (case squareform (map (\<lambda>d. flt d 0.38) (pdist seq_mat)) of
           Inl e \<Rightarrow> Inl e
         | Inr dist_mat \<Rightarrow>
             let weights = map (\<lambda>j. 1 + length (filter (\<lambda>row. row ! j) dist_mat))
                               [0 ..< length dist_mat]
             in if length weights = ?M then Inr (map (\<lambda>w. 1 / real w) weights)
                else Inl ValueError)"
    unfolding sequence_weights_def by (simp only: list_case_nonempty [OF ne] Let_def)
  also have "\<dots> = Inr ?w"
    unfolding sq using lw by (simp only: sum.case Let_def simp_thms if_True)
  finally have run: "sequence_weights seq_mat = Inr ?w" .
  have count: "length (filter (\<lambda>row. row ! i) ?sq) = card {k. k < ?M \<and> ?near k i}"
    by (rule column_count [OF assms(3)])
  have sym: "?near k i \<longleftrightarrow> k \<noteq> i \<and> flt (hamming (seq_mat ! i) (seq_mat ! k)) 0.38"
    if "k < ?M" for k
  proof -
    from that assms(1,3) have "length (seq_mat ! k) = length (seq_mat ! i)"
      by (simp add: rect_nth)
    then have "hamming (seq_mat ! k) (seq_mat ! i) = hamming (seq_mat ! i) (seq_mat ! k)"
      by (rule hamming_sym)
    then show ?thesis by simp
  qed
  have set_eq: "{k. k < ?M \<and> ?near k i} =
        {j. j < ?M \<and> j \<noteq> i \<and> flt (hamming (seq_mat ! i) (seq_mat ! j)) 0.38}"
    by (rule Collect_cong) (use sym in blast)
  have "?w ! i = 1 / real (1 + length (filter (\<lambda>row. row ! i) ?sq))"
    using assms(3) by simp
  also have "\<dots> = 1 / (1 + real (card {j. j < ?M \<and> j \<noteq> i \<and>
                                     flt (hamming (seq_mat ! i) (seq_mat ! j)) 0.38}))"
    by (simp only: count set_eq of_nat_add of_nat_1)
  finally have wi: "?w ! i = 1 / (1 + real (card {j. j < ?M \<and> j \<noteq> i \<and>
                                     flt (hamming (seq_mat ! i) (seq_mat ! j)) 0.38}))" .
  have frac: "\<forall>j<?M. flt (hamming (seq_mat ! i) (seq_mat ! j)) 0.38 \<longleftrightarrow>
               real (diff_count (seq_mat ! i) (seq_mat ! j)) / real L < 0.38" if "0 < L"
  proof (intro allI impI)
    fix j assume "j < ?M"
    from assms(1,3) have "length (seq_mat ! i) = L" by (simp add: rect_nth)
    from flt_hamming [OF this that]
    show "flt (hamming (seq_mat ! i) (seq_mat ! j)) 0.38 \<longleftrightarrow>
               real (diff_count (seq_mat ! i) (seq_mat ! j)) / real L < 0.38" .
  qed
  have len: "length ?w = ?M" by simp
  show ?thesis
    by (rule exI [of _ ?w]) (use run len wi frac in blast)
qed


lemma sequence_weights_example:
  "sequence_weights [[0, 1, 2], [0, 1, 3], [0, 4, 5]] = Inr [1 / 2, 1 / 2, 1]"
  by (simp add: sequence_weights_def squareform_def square_dim_def condensed_index_def
      hamming_def diff_count_def upt_rec Let_def)

theorem sequence_weights_formula_witness:
  "sequence_weights [[0, 1, 2], [0, 1, 3], [0, 4, 5]] = Inr [1 / 2, 1 / 2, 1] \<and>
   [1 / 2, 1 / 2, 1 :: real] ! 0 =
     1 / (1 + real (card {j. j < length [[0, 1, 2], [0, 1, 3], [0, 4, 5 :: int]] \<and> j \<noteq> 0 \<and>
        flt (hamming ([[0, 1, 2], [0, 1, 3], [0, 4, 5]] ! 0)
                     ([[0, 1, 2], [0, 1, 3], [0, 4, 5]] ! j)) 0.38}))"
proof -
  let ?m = "[[0, 1, 2], [0, 1, 3], [0, 4, 5 :: int]]"
  have r: "rect 3 ?m" by (simp add: rect_def)
  have M: "2 \<le> length ?m" by simp
  have i: "0 < length ?m" by simp
  from sequence_weights_formula [OF r M i]
  obtain w where w: "sequence_weights ?m = Inr w"
    "w ! 0 = 1 / (1 + real (card {j. j < length ?m \<and> j \<noteq> 0 \<and>
        flt (hamming (?m ! 0) (?m ! j)) 0.38}))"
    by blast
  from w(1) have "w = [1 / 2, 1 / 2, 1]" unfolding sequence_weights_example by simp
  with w(2) sequence_weights_example show ?thesis by (simp only:)
qed










lemma NC_Fin: "NC (map Fin fr) = length (filter (\<lambda>x. 0 < x) fr)"
  unfolding NC_def by (induction fr) simp_all






lemma indicator_sum_card:
  "(\<Sum>r<(M::nat). if P r then (1::real) else 0) = real (card {r. r < M \<and> P r})"
proof -
  have "real (card {r. r < M \<and> P r}) = (\<Sum>r\<in>{r \<in> {..<M}. P r}. 1)"
    by simp
  also have "\<dots> = (\<Sum>r<M. if P r then 1 else 0)"
    by (rule sum.inter_filter) simp
  finally show ?thesis by (rule sym)
qed

lemma symbol_weight_ones:
  "symbol_weight seq_mat (replicate (length seq_mat) 1) j i =
   real (card {r. r < length seq_mat \<and> seq_mat ! r ! j = int i})"
proof -
  have "symbol_weight seq_mat (replicate (length seq_mat) 1) j i =
        (\<Sum>r<length seq_mat. if seq_mat ! r ! j = int i then (1::real) else 0)"
    unfolding symbol_weight_def by (rule sum.cong) simp_all
  then show ?thesis by (simp only: indicator_sum_card)
qed

lemma column_weight_ones:
  "column_weight n seq_mat (replicate (length seq_mat) 1) j =
   (\<Sum>i<n. real (card {r. r < length seq_mat \<and> seq_mat ! r ! j = int i}))"
  by (simp only: column_weight_def symbol_weight_ones)


text \<open>
  Claim C10. The result of \<open>sequence_profile_no_gap\<close> does not depend on its \<open>weights\<close>
  argument, \<open>None\<close> included, and it is built from unweighted counts: for a matrix with
  at least one row and \<open>L\<close> columns, entry \<open>(j, i)\<close> of the profile is the number of rows
  that hold symbol \<open>i\<close> in column \<open>j\<close>, divided (NumPy division) by the sum of these
  numbers over the 21 symbols.
\<close>

theorem sequence_profile_no_gap_ignores_weights:
  "sequence_profile_no_gap seq_mat w1 = sequence_profile_no_gap seq_mat w2 \<and>
   (seq_mat \<noteq> [] \<and> rect L seq_mat \<longrightarrow>
      (\<exists>prof. sequence_profile_no_gap seq_mat w1 = Inr prof \<and> length prof = L \<and>
         (\<forall>j<L. length (prof ! j) = 21 \<and>
            (\<forall>i<21. prof ! j ! i =
               fdiv (Fin (real (card {r. r < length seq_mat \<and> seq_mat ! r ! j = int i})))
                    (Fin (\<Sum>i'<21. real (card {r. r < length seq_mat \<and>
                                                  seq_mat ! r ! j = int i'})))))))"
proof (intro conjI impI)
  show "sequence_profile_no_gap seq_mat w1 = sequence_profile_no_gap seq_mat w2"
    by (simp add: sequence_profile_no_gap_def)
next
  assume a: "seq_mat \<noteq> [] \<and> rect L seq_mat"
  let ?ones = "replicate (length seq_mat) (1::real)"
  let ?cnt = "\<lambda>j i. real (card {r. r < length seq_mat \<and> seq_mat ! r ! j = int i})"
  let ?prof = "map (\<lambda>j. map (\<lambda>i. fdiv (Fin (?cnt j i)) (Fin (\<Sum>i'<21. ?cnt j i'))) [0 ..< 21])
                   [0 ..< L]"
  from a have "sequence_profile_no_gap seq_mat w1 =
         Inr (map (\<lambda>j. map (\<lambda>i. fdiv (Fin (symbol_weight seq_mat ?ones j i))
                 (Fin (column_weight 21 seq_mat ?ones j))) [0 ..< 21]) [0 ..< L])"
    by (intro sequence_profile_no_gap_rows) simp_all
  then have run: "sequence_profile_no_gap seq_mat w1 = Inr ?prof"
    by (simp only: symbol_weight_ones column_weight_ones)
  have len: "length ?prof = L" by simp
  have rows: "\<forall>j<L. length (?prof ! j) = 21 \<and>
            (\<forall>i<21. ?prof ! j ! i = fdiv (Fin (?cnt j i)) (Fin (\<Sum>i'<21. ?cnt j i')))"
    by (simp del: fdiv.simps)
  show "\<exists>prof. sequence_profile_no_gap seq_mat w1 = Inr prof \<and> length prof = L \<and>
         (\<forall>j<L. length (prof ! j) = 21 \<and>
            (\<forall>i<21. prof ! j ! i = fdiv (Fin (?cnt j i)) (Fin (\<Sum>i'<21. ?cnt j i'))))"
    by (rule exI [of _ ?prof]) (intro conjI run len rows)
qed

theorem sequence_profile_no_gap_ignores_weights_witness:
  "sequence_profile_no_gap [[0, 1], [0, 2]] (Some [5, 7]) =
     sequence_profile_no_gap [[0, 1], [0, 2]] None \<and>
   (\<exists>prof. sequence_profile_no_gap [[0, 1], [0, 2]] (Some [5, 7]) = Inr prof \<and>
      length prof = 2 \<and> length (prof ! 1) = 21 \<and>
      prof ! 1 ! 2 =
        fdiv (Fin (real (card {r. r < length [[0, 1], [0, 2 :: int]] \<and>
                                  [[0, 1], [0, 2]] ! r ! 1 = int 2})))
             (Fin (\<Sum>i'<21. real (card {r. r < length [[0, 1], [0, 2 :: int]] \<and>
                                           [[0, 1], [0, 2]] ! r ! 1 = int i'}))))"
proof -
  let ?m = "[[0, 1], [0, 2 :: int]]"
  have hyp: "?m \<noteq> [] \<and> rect 2 ?m" by (simp add: rect_def)
  note th = sequence_profile_no_gap_ignores_weights [of ?m "Some [5, 7]" None 2]
  from th have eq: "sequence_profile_no_gap ?m (Some [5, 7]) = sequence_profile_no_gap ?m None"
    by (rule conjunct1)
  from th hyp obtain prof where prof: "sequence_profile_no_gap ?m (Some [5, 7]) = Inr prof"
    "length prof = 2"
    "\<forall>j<2. length (prof ! j) = 21 \<and>
            (\<forall>i<21. prof ! j ! i =
               fdiv (Fin (real (card {r. r < length ?m \<and> ?m ! r ! j = int i})))
                    (Fin (\<Sum>i'<21. real (card {r. r < length ?m \<and> ?m ! r ! j = int i'}))))"
    by blast
  have j: "(1::nat) < 2" and i: "(2::nat) < 21" by simp_all
  from prof(3) j have row: "length (prof ! 1) = 21"
    "\<forall>i<21. prof ! 1 ! i =
               fdiv (Fin (real (card {r. r < length ?m \<and> ?m ! r ! 1 = int i})))
                    (Fin (\<Sum>i'<21. real (card {r. r < length ?m \<and> ?m ! r ! 1 = int i'})))"
    by blast+
  from row(2) i have "prof ! 1 ! 2 =
               fdiv (Fin (real (card {r. r < length ?m \<and> ?m ! r ! 1 = int 2})))
                    (Fin (\<Sum>i'<21. real (card {r. r < length ?m \<and> ?m ! r ! 1 = int i'})))"
    by blast
  with prof(1,2) row(1) eq show ?thesis by blast
qed

lemma a3m_rows_Cons_True:
  assumes "a3m_rows tbl True q (seq # rest) = Inr kept"
  shows "\<exists>e k. to_numeric tbl (filter (\<lambda>s. \<not> islower s) seq) = Inr e \<and>
               sequence_identity tbl q e = Inr k \<and>
               (if real k < real (length q) * 0.01
                then a3m_rows tbl True q rest = Inr kept
                else (\<exists>kept'. a3m_rows tbl True q rest = Inr kept' \<and> kept = e # kept'))"
  using assms by (auto split: sum.splits if_splits)

lemma a3m_kept_pass:
  assumes "a3m_rows tbl True q rows = Inr kept" and "e \<in> set kept"
  shows "\<exists>k. sequence_identity tbl q e = Inr k \<and> \<not> real k < real (length q) * 0.01"
  using assms
proof (induction rows arbitrary: kept)
  case Nil
  then show ?case by simp
next
  case (Cons seq rest)
  from a3m_rows_Cons_True [OF Cons.prems(1)] obtain e' k'
    where e': "sequence_identity tbl q e' = Inr k'"
      and br: "if real k' < real (length q) * 0.01
               then a3m_rows tbl True q rest = Inr kept
               else (\<exists>kept'. a3m_rows tbl True q rest = Inr kept' \<and> kept = e' # kept')"
    by blast
  show ?case
  proof (cases "real k' < real (length q) * 0.01")
    case True
    with br have "a3m_rows tbl True q rest = Inr kept" by simp
    from Cons.IH [OF this Cons.prems(2)] show ?thesis .
  next
    case False
    with br obtain kept' where k: "a3m_rows tbl True q rest = Inr kept'" "kept = e' # kept'"
      by auto
    show ?thesis
    proof (cases "e = e'")
      case True
      with e' False show ?thesis by blast
    next
      case ne: False
      with Cons.prems(2) k(2) have "e \<in> set kept'" by simp
      from Cons.IH [OF k(1) this] show ?thesis .
    qed
  qed
qed

lemma a3m_rows_status:
  assumes "a3m_rows tbl True q rows = Inr kept" and "seq \<in> set rows"
  shows "\<exists>e k. to_numeric tbl (filter (\<lambda>s. \<not> islower s) seq) = Inr e \<and>
               sequence_identity tbl q e = Inr k \<and>
               (\<not> real k < real (length q) * 0.01 \<longrightarrow> e \<in> set kept)"
  using assms
proof (induction rows arbitrary: kept)
  case Nil
  then show ?case by simp
next
  case (Cons row rest)
  from a3m_rows_Cons_True [OF Cons.prems(1)] obtain e' k'
    where e': "to_numeric tbl (filter (\<lambda>s. \<not> islower s) row) = Inr e'"
      "sequence_identity tbl q e' = Inr k'"
      and br: "if real k' < real (length q) * 0.01
               then a3m_rows tbl True q rest = Inr kept
               else (\<exists>kept'. a3m_rows tbl True q rest = Inr kept' \<and> kept = e' # kept')"
    by blast
  show ?case
  proof (cases "seq = row")
    case True
    show ?thesis
    proof (cases "real k' < real (length q) * 0.01")
      case lt: True
      with e' True show ?thesis by blast
    next
      case False
      with br have "e' \<in> set kept" by auto
      with e' True show ?thesis by blast
    qed
  next
    case False
    with Cons.prems(2) have mem: "seq \<in> set rest" by simp
    show ?thesis
    proof (cases "real k' < real (length q) * 0.01")
      case True
      with br have "a3m_rows tbl True q rest = Inr kept" by simp
      from Cons.IH [OF this mem] show ?thesis .
    next
      case False
      with br obtain kept' where k: "a3m_rows tbl True q rest = Inr kept'" "kept = e' # kept'"
        by auto
      from Cons.IH [OF k(1) mem] obtain e k0
        where "to_numeric tbl (filter (\<lambda>s. \<not> islower s) seq) = Inr e"
          "sequence_identity tbl q e = Inr k0"
          "\<not> real k0 < real (length q) * 0.01 \<longrightarrow> e \<in> set kept'" by blast
      with k(2) show ?thesis by auto
    qed
  qed
qed

lemma as_int_matrix_Inr:
  assumes "as_int_matrix kept = Inr m"
  shows "m = map (map int) kept"
  using assms by (cases kept) (auto simp: as_int_matrix_def split: if_splits)


lemma filter_all: "\<forall>x\<in>set xs. P x \<Longrightarrow> filter P xs = xs"
  by (induction xs) simp_all

text \<open>
  Claim C5. For a query without gap and without lower-case characters (an alignment's
  query row has neither) that equals the first row of the alignment, with filtering on:
  on an aligned input (every row has the query's length once its lower-case characters
  are removed) \<open>read_a3m_as_mat\<close> returns a matrix; and whenever it returns a matrix,
  the query row is retained as row 0, and a row is in the matrix exactly when its
  identity score against the query is not below 0.01 times the query length, so that
  every discarded row scores strictly below it.
\<close>

theorem read_a3m_as_mat_retains_query:
  assumes "alphabet_ok tbl" and "a3m_seqs = sequence # rest"
    and "\<forall>c\<in>set sequence. c \<noteq> CHR ''-'' \<and> \<not> islower c"
  shows "((\<forall>seq\<in>set a3m_seqs. length (filter (\<lambda>s. \<not> islower s) seq) = length sequence) \<longrightarrow>
            (\<exists>m. read_a3m_as_mat tbl sequence ids a3m_seqs True = Inr m)) \<and>
         (\<forall>m. read_a3m_as_mat tbl sequence ids a3m_seqs True = Inr m \<longrightarrow>
            (\<exists>q. to_numeric tbl sequence = Inr q \<and> m \<noteq> [] \<and> hd m = map int q \<and>
               (\<forall>seq\<in>set a3m_seqs. \<exists>e k.
                   to_numeric tbl (filter (\<lambda>s. \<not> islower s) seq) = Inr e \<and>
                   sequence_identity tbl q e = Inr k \<and>
                   (map int e \<in> set m \<longleftrightarrow> \<not> real k < 0.01 * real (length sequence)))))"
proof (intro conjI impI allI)
  assume "\<forall>seq\<in>set a3m_seqs. length (filter (\<lambda>s. \<not> islower s) seq) = length sequence"
  from read_a3m_as_mat_aligned [OF assms(1,2) this, of ids]
  show "\<exists>m. read_a3m_as_mat tbl sequence ids a3m_seqs True = Inr m" by blast
next
  fix m assume run: "read_a3m_as_mat tbl sequence ids a3m_seqs True = Inr m"
  let ?strip = "filter (\<lambda>s. \<not> islower s)"
  from alphabet_gap [OF assms(1)] obtain gap
    where gap: "getitem tbl (CHR ''-'') = Inr gap" "map_of tbl (CHR ''-'') = Some gap"
    by blast
  from to_numeric_total [OF assms(1), of sequence] obtain q
    where q: "to_numeric tbl sequence = Inr q" "length q = length sequence" by blast
  from run assms(2) q(1) obtain kept
    where kept: "a3m_rows tbl True q a3m_seqs = Inr kept" "as_int_matrix kept = Inr m"
    by (auto simp: read_a3m_as_mat_def split: sum.splits)
  from as_int_matrix_Inr [OF kept(2)] have m: "m = map (map int) kept" .
  have strip: "?strip sequence = sequence"
    using assms(3) by (intro filter_all) simp
  have nogap: "filter (\<lambda>c. c \<noteq> CHR ''-'') sequence = sequence"
    using assms(3) by (intro filter_all) simp
  have "match_count gap q q = length (filter (\<lambda>c. c \<noteq> CHR ''-'') sequence)"
    by (rule identity_query_self [OF assms(1) gap(2) q(1)])
  with nogap q(2) have mc: "match_count gap q q = length q" by simp
  have idq: "sequence_identity tbl q q = Inr (length q)"
    using sequence_identity_same_length [OF gap(1) refl, of q] mc by simp
  have pass: "\<not> real (length q) < real (length q) * 0.01" by simp
  from kept(1) assms(2) have "a3m_rows tbl True q (sequence # rest) = Inr kept" by simp
  from a3m_rows_Cons_True [OF this] strip q(1) idq pass
  obtain kept' where kept': "kept = q # kept'" by auto
  with m have first: "m \<noteq> [] \<and> hd m = map int q" by simp
  have each: "\<exists>e k. to_numeric tbl (?strip seq) = Inr e \<and> sequence_identity tbl q e = Inr k \<and>
              (map int e \<in> set m \<longleftrightarrow> \<not> real k < 0.01 * real (length sequence))"
    if "seq \<in> set a3m_seqs" for seq
  proof -
    from a3m_rows_status [OF kept(1) that] obtain e k
      where e: "to_numeric tbl (?strip seq) = Inr e" "sequence_identity tbl q e = Inr k"
        "\<not> real k < real (length q) * 0.01 \<longrightarrow> e \<in> set kept" by blast
    have only_pass: "\<not> real k < real (length q) * 0.01" if "e \<in> set kept"
    proof -
      from a3m_kept_pass [OF kept(1) that] obtain k'
        where "sequence_identity tbl q e = Inr k'" "\<not> real k' < real (length q) * 0.01"
        by blast
      with e(2) show ?thesis by simp
    qed
    have "map int e \<in> set m \<longleftrightarrow> e \<in> set kept" unfolding m by (rule map_int_mem)
    also have "\<dots> \<longleftrightarrow> \<not> real k < real (length q) * 0.01" using e(3) only_pass by blast
    also have "\<dots> \<longleftrightarrow> \<not> real k < 0.01 * real (length sequence)"
      by (simp add: q(2) mult.commute)
    finally show ?thesis using e(1,2) by blast
  qed
  from q(1) first each
  show "\<exists>q. to_numeric tbl sequence = Inr q \<and> m \<noteq> [] \<and> hd m = map int q \<and>
               (\<forall>seq\<in>set a3m_seqs. \<exists>e k.
                   to_numeric tbl (?strip seq) = Inr e \<and>
                   sequence_identity tbl q e = Inr k \<and>
                   (map int e \<in> set m \<longleftrightarrow> \<not> real k < 0.01 * real (length sequence)))"
    by blast
qed


theorem read_a3m_as_mat_retains_query_witness:
  "alphabet_ok AminoAcid_sample \<and>
   (\<exists>m. read_a3m_as_mat AminoAcid_sample ''AC'' [] [''AC'', ''-aC'', ''--''] True = Inr m \<and>
        m \<noteq> [] \<and> hd m = [0, 1])"
proof -
  have query: "\<forall>c\<in>set ''AC''. c \<noteq> CHR ''-'' \<and> \<not> islower c"
    by (simp add: islower_def)
  have al: "\<forall>seq\<in>set (''AC'' # [''-aC'', ''--'']).
              length (filter (\<lambda>s. \<not> islower s) seq) = length ''AC''"
    by (simp add: islower_def)
  note th = read_a3m_as_mat_retains_query [OF alphabet_ok_sample refl query,
      of "[''-aC'', ''--'']" "[]"]
  from th al obtain m
    where m: "read_a3m_as_mat AminoAcid_sample ''AC'' [] [''AC'', ''-aC'', ''--''] True = Inr m"
    by blast
  with th obtain q where q: "to_numeric AminoAcid_sample ''AC'' = Inr q"
    and first: "m \<noteq> []" "hd m = map int q"
    by blast
  from q have "q = [0, 1]" unfolding to_numeric_sample_AC by simp
  with first have "m \<noteq> [] \<and> hd m = [0, 1]" by simp
  with m alphabet_ok_sample show ?thesis by blast
qed













end
